theory Spec2Isabelle
  imports Complex_Main
begin

section \<open>Data model of the payment settlement core\<close>

text \<open>
  The embedding follows \<^verbatim>\<open>backend/src/routes/payments.ts\<close> (stored in the file
  \<^verbatim>\<open>src/backend/src/config/razorpay.ts\<close> after the gateway configuration) and
  \<^verbatim>\<open>backend/src/utils/activityLogger.ts\<close>.

  Monetary amounts are JavaScript numbers in the source, that is IEEE 754 doubles, and
  the request schema accepts fractional amounts.  The development has two levels.  The
  handlers are modelled on whole currency units (\<open>int\<close>): control flow, ordering,
  transactions and errors do not depend on rounding.  The statement loop and the balance
  sum are modelled a second time in double arithmetic (section \<open>Double arithmetic\<close>),
  and the properties that depend on the arithmetic are stated there; on whole amounts
  below \<open>2^53\<close> the two levels are proved to agree.  Row identifiers of cards, users
  and statements are integers; a payment identifier is the text the ORM generates.
\<close>

datatype card_status = ACTIVE | BLOCKED | SUSPENDED

datatype pay_status = PENDING | SUCCESS | FAILED

record card =
  card_id :: int
  card_userId :: int
  card_status :: card_status
  last4 :: string

record statement =
  st_id :: int
  st_cardId :: int
  dueDate :: nat
  balance :: int
  isPaid :: bool

record payment =
  pay_id :: string
  pay_cardId :: "int option"
  pay_userId :: int
  pay_amount :: int
  pay_method :: string
  pay_status :: pay_status
  externalId :: "string option"
  idempotencyKey :: "string option"
  createdAt :: nat

record notification =
  ntf_userId :: int
  ntf_amount :: int
  ntf_last4 :: string
  ntf_outcome :: pay_status

record activity =
  act_userId :: int
  act_type :: string
  act_title :: string
  act_amount :: int
  act_method :: string
  act_status :: pay_status

text \<open>The deferred call that \<^verbatim>\<open>setTimeout\<close> registers in the creation handler.\<close>

record timer_task =
  task_paymentId :: string
  task_status :: pay_status
  task_last4 :: string
  task_userId :: int
  task_amount :: int

datatype log_entry =
    LogPaymentCreated string
  | LogPaymentProcessed string pay_status
  | LogProcessingError string
  | LogTimerError string
  | LogActivityFailed int
  | LogIdempotencySkipped

text \<open>Every \<^verbatim>\<open>throw\<close> of the handlers, and the failures of the storage layer.\<close>

datatype error =
    SchemaValidationError
  | NotFoundError string
  | ForbiddenError
  | ValidationError
  | TypeError
  | RecordNotFound
  | UniqueConstraintError
  | StorageError
  | NotificationError

text \<open>
  The state the handlers act on: the tables, the timer queue and the log.  The tables
  \<open>payments\<close> and \<open>statements\<close> are the ones \<^verbatim>\<open>processPayment\<close> writes through the
  transaction client \<^verbatim>\<open>tx\<close>; \<open>activities\<close> is written by \<^verbatim>\<open>logActivity\<close> through the
  global client.
\<close>

record state =
  cards :: "card list"
  statements :: "statement list"
  payments :: "payment list"
  notifications :: "notification list"
  activities :: "activity list"
  timers :: "timer_task list"
  logs :: "log_entry list"

text \<open>
  What the environment decides: which storage writes fail.  \<open>stmt_update_fails i\<close> says
  that \<^verbatim>\<open>tx.statement.update\<close> on the statement with id \<open>i\<close> throws.
\<close>

record faults =
  stmt_update_fails :: "int \<Rightarrow> bool"
  notify_fails :: bool
  activity_create_fails :: bool

definition no_faults :: faults where
  "no_faults = \<lparr>stmt_update_fails = (\<lambda>_. False), notify_fails = False,
     activity_create_fails = False\<rparr>"

section \<open>Helpers of the handlers\<close>

definition status_text :: "pay_status \<Rightarrow> string" where
  "status_text s = (case s of PENDING \<Rightarrow> ''PENDING'' | SUCCESS \<Rightarrow> ''SUCCESS''
     | FAILED \<Rightarrow> ''FAILED'')"

definition lower_char :: "char \<Rightarrow> char" where
  "lower_char c = (let n = (of_char c :: nat) in
     if 65 \<le> n \<and> n \<le> 90 then char_of (n + 32) else c)"

definition toLowerCase :: "string \<Rightarrow> string" where
  "toLowerCase s = map lower_char s"

text \<open>\<^verbatim>\<open>normalizeStatus\<close>: a stored status is never empty, so it is lower-cased.\<close>

definition normalizeStatus :: "pay_status \<Rightarrow> string" where
  "normalizeStatus s = (if status_text s = [] then status_text s
     else toLowerCase (status_text s))"

text \<open>\<^verbatim>\<open>Number(x) || 0\<close> on a number: zero is falsy and yields the constant \<open>0\<close>.\<close>

definition num_or_zero :: "int \<Rightarrow> int" where
  "num_or_zero x = (if x = 0 then 0 else x)"

text \<open>
  \<^verbatim>\<open>statement.findMany({ where: { cardId, isPaid: false }, orderBy: { dueDate: 'asc' } })\<close>.
  The card of a payment may be null; no statement has a null card.  Rows with equal due
  dates keep their table order.
\<close>

definition unpaid_of :: "int option \<Rightarrow> statement list \<Rightarrow> statement list" where
  "unpaid_of cid tbl = filter (\<lambda>s. Some (st_cardId s) = cid \<and> \<not> isPaid s) tbl"

definition findMany_unpaid_asc :: "int option \<Rightarrow> statement list \<Rightarrow> statement list" where
  "findMany_unpaid_asc cid tbl = sort_key dueDate (unpaid_of cid tbl)"

text \<open>\<^verbatim>\<open>statements.reduce((sum, st) => sum + (Number(st.balance) || 0), 0)\<close>\<close>

definition outstanding_of :: "statement list \<Rightarrow> int" where
  "outstanding_of sts = foldl (\<lambda>sum st. sum + num_or_zero (balance st)) 0 sts"

definition outstandingBalance :: "state \<Rightarrow> int \<Rightarrow> int" where
  "outstandingBalance s cid = outstanding_of (findMany_unpaid_asc (Some cid) (statements s))"

definition freshOutstanding :: "state \<Rightarrow> int \<Rightarrow> int" where
  "freshOutstanding s cid = outstanding_of (unpaid_of (Some cid) (statements s))"

section \<open>The side effects\<close>

definition payment_activity :: "int \<Rightarrow> int \<Rightarrow> string \<Rightarrow> pay_status \<Rightarrow> activity" where
  "payment_activity uid amount method st =
     \<lparr>act_userId = uid, act_type = ''PAYMENT'', act_title = ''Payment Made'',
      act_amount = amount, act_method = method, act_status = st\<rparr>"

text \<open>
  \<^verbatim>\<open>logActivity\<close>: the write goes through the global client inside a \<^verbatim>\<open>try\<close>; a failure
  is printed and not rethrown, so the function always returns normally.
\<close>

definition logActivity :: "faults \<Rightarrow> activity \<Rightarrow> state \<Rightarrow> state" where
  "logActivity f a s =
     (if activity_create_fails f
      then s\<lparr>logs := logs s @ [LogActivityFailed (act_userId a)]\<rparr>
      else s\<lparr>activities := activities s @ [a]\<rparr>)"

text \<open>
  Modelled from the spec: \<^verbatim>\<open>createPaymentSuccessNotification\<close> and
  \<^verbatim>\<open>createPaymentFailedNotification\<close> of \<^verbatim>\<open>utils/notifications\<close> are not
  among the sources.  The spec says one notification is emitted reflecting the outcome;
  whether the helper can throw is left to the environment (\<open>notify_fails\<close>).
\<close>

definition createPaymentNotification ::
  "faults \<Rightarrow> pay_status \<Rightarrow> int \<Rightarrow> int \<Rightarrow> string \<Rightarrow> state \<Rightarrow> (error + unit) \<times> state" where
  "createPaymentNotification f outcome uid amount l4 s =
     (if notify_fails f then (Inl NotificationError, s)
      else (Inr (), s\<lparr>notifications := notifications s @
              [\<lparr>ntf_userId = uid, ntf_amount = amount, ntf_last4 = l4,
                ntf_outcome = outcome\<rparr>]\<rparr>))"

section \<open>Statement application\<close>

text \<open>Rewriting the row with primary key \<open>i\<close>.\<close>

definition upd_at :: "int \<Rightarrow> (statement \<Rightarrow> statement) \<Rightarrow> statement list \<Rightarrow> statement list" where
  "upd_at i g tbl = map (\<lambda>r. if st_id r = i then g r else r) tbl"

text \<open>
  \<^verbatim>\<open>tx.statement.update({ where: { id }, data })\<close>: the row with the given primary key
  is rewritten; a missing row and a storage failure both throw.
\<close>

definition statement_update ::
  "faults \<Rightarrow> int \<Rightarrow> (statement \<Rightarrow> statement) \<Rightarrow> statement list \<Rightarrow> error + statement list" where
  "statement_update f i g tbl =
     (if stmt_update_fails f i then Inl StorageError
      else if \<not> (\<exists>r \<in> set tbl. st_id r = i) then Inl RecordNotFound
      else Inr (upd_at i g tbl))"

text \<open>\<^verbatim>\<open>data: { isPaid: true, balance: 0 }\<close>\<close>

definition pay_off :: "statement \<Rightarrow> statement" where
  "pay_off r = r\<lparr>isPaid := True, balance := 0\<rparr>"

text \<open>\<^verbatim>\<open>data: { balance: Number(statement.balance) - remainingAmount }\<close>\<close>

definition pay_part :: "int \<Rightarrow> statement \<Rightarrow> statement" where
  "pay_part b r = r\<lparr>balance := b\<rparr>"

text \<open>
  The \<^verbatim>\<open>for (const statement of statements)\<close> loop of \<^verbatim>\<open>processPayment\<close>.  The
  first list is the fetched snapshot, \<open>remainingAmount\<close> the running remainder, the
  last list the statement table as written so far inside the transaction.  The balance
  compared and subtracted is the one of the snapshot row, as in the source.  On a
  failure the table written so far is returned with the error.
\<close>

fun apply_loop ::
  "faults \<Rightarrow> statement list \<Rightarrow> int \<Rightarrow> statement list \<Rightarrow> (error + unit) \<times> statement list" where
  "apply_loop f [] remainingAmount tbl = (Inr (), tbl)"
| "apply_loop f (st # rest) remainingAmount tbl =
     (if remainingAmount \<le> 0 then (Inr (), tbl)
      else if remainingAmount \<ge> balance st then
        (case statement_update f (st_id st) pay_off tbl of
           Inl e \<Rightarrow> (Inl e, tbl)
         | Inr tbl' \<Rightarrow> apply_loop f rest (remainingAmount - balance st) tbl')
      else
        (case statement_update f (st_id st) (pay_part (balance st - remainingAmount)) tbl of
           Inl e \<Rightarrow> (Inl e, tbl)
         | Inr tbl' \<Rightarrow> apply_loop f rest 0 tbl'))"

section \<open>Resolution: \<^verbatim>\<open>processPayment\<close>\<close>

text \<open>
  \<^verbatim>\<open>tx.payment.update({ where: { id: paymentId }, data: { status, externalId } })\<close>.
  An undefined \<^verbatim>\<open>externalId\<close> leaves the column as it is.  The bookkeeping column
  \<^verbatim>\<open>updatedAt\<close>, which the ORM rewrites at every update, is not part of the record:
  equality of payment rows below is equality up to that column.
\<close>

definition set_resolution :: "pay_status \<Rightarrow> string option \<Rightarrow> payment \<Rightarrow> payment" where
  "set_resolution st ext p =
     p\<lparr>pay_status := st,
       externalId := (case ext of None \<Rightarrow> externalId p | Some x \<Rightarrow> Some x)\<rparr>"

definition resolve_row ::
  "string \<Rightarrow> pay_status \<Rightarrow> string option \<Rightarrow> payment list \<Rightarrow> payment list" where
  "resolve_row pid st ext tbl =
     map (\<lambda>q. if pay_id q = pid then set_resolution st ext q else q) tbl"

definition payment_update ::
  "string \<Rightarrow> pay_status \<Rightarrow> string option \<Rightarrow> payment list \<Rightarrow> error + (payment \<times> payment list)" where
  "payment_update pid st ext tbl =
     (case find (\<lambda>p. pay_id p = pid) tbl of
        None \<Rightarrow> Inl RecordNotFound
      | Some p \<Rightarrow> Inr (set_resolution st ext p, resolve_row pid st ext tbl))"

text \<open>The callback given to \<^verbatim>\<open>prisma.$transaction\<close>.\<close>

definition processPayment_body ::
  "faults \<Rightarrow> string \<Rightarrow> pay_status \<Rightarrow> string \<Rightarrow> int \<Rightarrow> int \<Rightarrow> string option \<Rightarrow> state
     \<Rightarrow> (error + unit) \<times> state" where
  "processPayment_body f paymentId status cardLast4 userId amount ext s =
     (case payment_update paymentId status ext (payments s) of
        Inl e \<Rightarrow> (Inl e, s)
      | Inr (updatedPayment, ptbl) \<Rightarrow>
          let s1 = s\<lparr>payments := ptbl\<rparr> in
          if status = SUCCESS then
            (let snapshot = findMany_unpaid_asc (pay_cardId updatedPayment) (statements s1)
             in case apply_loop f snapshot amount (statements s1) of
                  (Inl e, tbl) \<Rightarrow> (Inl e, s1\<lparr>statements := tbl\<rparr>)
                | (Inr _, tbl) \<Rightarrow>
                    (case createPaymentNotification f SUCCESS userId amount cardLast4
                            (s1\<lparr>statements := tbl\<rparr>) of
                       (Inl e, s2) \<Rightarrow> (Inl e, s2)
                     | (Inr _, s2) \<Rightarrow>
                         (Inr (), logActivity f
                            (payment_activity userId amount ''bank'' SUCCESS) s2)))
          else
            (case createPaymentNotification f FAILED userId amount cardLast4 s1 of
               (Inl e, s2) \<Rightarrow> (Inl e, s2)
             | (Inr _, s2) \<Rightarrow>
                 (Inr (), logActivity f (payment_activity userId amount ''bank'' FAILED) s2)))"

text \<open>
  \<^verbatim>\<open>prisma.$transaction\<close>: when the callback throws, the writes made through \<^verbatim>\<open>tx\<close>
  (payments, statements) are rolled back; writes of the global client are not part of it.
\<close>

definition rollback :: "state \<Rightarrow> state \<Rightarrow> state" where
  "rollback s0 s' = s'\<lparr>payments := payments s0, statements := statements s0\<rparr>"

definition processPayment ::
  "faults \<Rightarrow> string \<Rightarrow> pay_status \<Rightarrow> string \<Rightarrow> int \<Rightarrow> int \<Rightarrow> string option \<Rightarrow> state
     \<Rightarrow> (error + unit) \<times> state" where
  "processPayment f paymentId status cardLast4 userId amount ext s =
     (case processPayment_body f paymentId status cardLast4 userId amount ext s of
        (Inl e, s') \<Rightarrow>
          (Inl e, (rollback s s')\<lparr>logs := logs s' @ [LogProcessingError paymentId]\<rparr>)
      | (Inr _, s') \<Rightarrow>
          (Inr (), s'\<lparr>logs := logs s' @ [LogPaymentProcessed paymentId status]\<rparr>))"

section \<open>The webhook handler\<close>

record webhook_body =
  wh_paymentId :: string
  wh_status :: string
  wh_externalId :: "string option"

text \<open>\<^verbatim>\<open>webhookSchema\<close>: the status is one of the two terminal names.\<close>

definition parse_webhook_status :: "string \<Rightarrow> pay_status option" where
  "parse_webhook_status t =
     (if t = ''SUCCESS'' then Some SUCCESS else if t = ''FAILED'' then Some FAILED else None)"

text \<open>\<^verbatim>\<open>include: { card: { select: { last4 } } }\<close>: null when the payment has no card.\<close>

definition card_of_payment :: "state \<Rightarrow> payment \<Rightarrow> card option" where
  "card_of_payment s p =
     (case pay_cardId p of None \<Rightarrow> None
      | Some c \<Rightarrow> find (\<lambda>k. card_id k = c) (cards s))"

definition webhook :: "faults \<Rightarrow> webhook_body \<Rightarrow> state \<Rightarrow> (error + unit) \<times> state" where
  "webhook f body s =
     (case parse_webhook_status (wh_status body) of
        None \<Rightarrow> (Inl SchemaValidationError, s)
      | Some status \<Rightarrow>
          (case find (\<lambda>p. pay_id p = wh_paymentId body) (payments s) of
             None \<Rightarrow> (Inl (NotFoundError ''Payment not found''), s)
           | Some p \<Rightarrow>
               (case card_of_payment s p of
                  None \<Rightarrow> (Inl TypeError, s)
                | Some c \<Rightarrow>
                    processPayment f (wh_paymentId body) status (last4 c) (pay_userId p)
                      (pay_amount p) (wh_externalId body) s)))"

section \<open>The creation handler\<close>

record create_request =
  req_userId :: int
  req_cardId :: int
  req_amount :: int
  req_method :: string
  req_idempotencyKey :: "string option"

text \<open>
  What the environment decides for one creation request: the identifier the ORM
  generates, the clock, the outcome drawn by \<^verbatim>\<open>Math.random() > 0.05\<close>, and whether the
  Payment model has the column \<^verbatim>\<open>idempotencyKey\<close> (the schema is not among the sources;
  without the column the lookup throws and the handler continues).
\<close>

record create_env =
  gen_id :: string
  now :: nat
  rnd_success :: bool
  has_idempotency_column :: bool

record create_response =
  http_code :: nat
  res_paymentId :: string
  res_amount :: int
  res_method :: string
  res_status :: string
  res_newBalance :: int
  res_timestamp :: nat

text \<open>\<^verbatim>\<open>createPaymentSchema\<close>, checked by \<^verbatim>\<open>validateBody\<close> before the handler runs.\<close>

definition createPaymentSchema_ok :: "create_request \<Rightarrow> bool" where
  "createPaymentSchema_ok r \<longleftrightarrow>
     0 < req_cardId r \<and> 0 < req_amount r \<and> req_amount r \<le> 1000000 \<and>
     req_method r \<in> set [''bank'', ''card'', ''instant'']"

text \<open>
  The white space that \<^verbatim>\<open>String.prototype.trim\<close> strips, among the code units a header
  value can hold (the HTTP parser decodes header bytes one to one, so they are below
  256): tab, line feed, vertical tab, form feed, carriage return, space and the
  no-break space.
\<close>

definition is_space :: "char \<Rightarrow> bool" where
  "is_space c \<longleftrightarrow> (of_char c :: nat) \<in> set [32, 9, 10, 11, 12, 13, 160]"

definition trim :: "string \<Rightarrow> string" where
  "trim t = rev (dropWhile is_space (rev (dropWhile is_space t)))"

text \<open>\<^verbatim>\<open>(req.header('Idempotency-Key') || '').trim() || undefined\<close>\<close>

definition read_idempotency_key :: "string option \<Rightarrow> string option" where
  "read_idempotency_key h =
     (let t = trim (case h of None \<Rightarrow> [] | Some x \<Rightarrow> x) in if t = [] then None else Some t)"

text \<open>
  \<^verbatim>\<open>payment.findFirst({ where: { idempotencyKey } })\<close>; \<open>Inl\<close> is the exception the
  handler catches when the column does not exist.
\<close>

definition find_by_idempotency_key ::
  "create_env \<Rightarrow> string \<Rightarrow> payment list \<Rightarrow> unit + payment option" where
  "find_by_idempotency_key env k tbl =
     (if has_idempotency_column env then Inr (find (\<lambda>p. idempotencyKey p = Some k) tbl)
      else Inl ())"

text \<open>\<^verbatim>\<open>payment.create\<close>: the primary key is unique.\<close>

definition payment_create :: "payment \<Rightarrow> payment list \<Rightarrow> error + payment list" where
  "payment_create p tbl =
     (if \<exists>q \<in> set tbl. pay_id q = pay_id p then Inl UniqueConstraintError
      else Inr (tbl @ [p]))"

text \<open>
  The \<^verbatim>\<open>data\<close> of \<^verbatim>\<open>payment.create\<close> in the creation handler: status PENDING, and
  no idempotency key (the assignment is commented out in the source).
\<close>

definition new_payment :: "create_env \<Rightarrow> create_request \<Rightarrow> payment" where
  "new_payment env r = \<lparr>pay_id = gen_id env, pay_cardId = Some (req_cardId r),
     pay_userId = req_userId r, pay_amount = req_amount r, pay_method = req_method r,
     pay_status = PENDING, externalId = None, idempotencyKey = None, createdAt = now env\<rparr>"

definition create_new ::
  "create_env \<Rightarrow> create_request \<Rightarrow> card \<Rightarrow> int \<Rightarrow> state \<Rightarrow> (error + create_response) \<times> state" where
  "create_new env r c outstanding s =
     (let p = new_payment env r
      in case payment_create p (payments s) of
           Inl e \<Rightarrow> (Inl e, s)
         | Inr ptbl \<Rightarrow>
             (Inr \<lparr>http_code = 201, res_paymentId = pay_id p, res_amount = pay_amount p,
                   res_method = pay_method p, res_status = normalizeStatus (pay_status p),
                   res_newBalance = outstanding, res_timestamp = createdAt p\<rparr>,
              s\<lparr>payments := ptbl,
                timers := timers s @
                  [\<lparr>task_paymentId = pay_id p,
                    task_status = (if rnd_success env then SUCCESS else FAILED),
                    task_last4 = last4 c, task_userId = req_userId r,
                    task_amount = req_amount r\<rparr>],
                logs := logs s @ [LogPaymentCreated (pay_id p)]\<rparr>))"

definition existing_response :: "payment \<Rightarrow> int \<Rightarrow> create_response" where
  "existing_response p fresh =
     \<lparr>http_code = 200, res_paymentId = pay_id p, res_amount = pay_amount p,
      res_method = pay_method p, res_status = normalizeStatus (pay_status p),
      res_newBalance = fresh, res_timestamp = createdAt p\<rparr>"

text \<open>\<^verbatim>\<open>card.findFirst({ where: { id: cardId, userId } })\<close>\<close>

definition find_owned_card :: "state \<Rightarrow> int \<Rightarrow> int \<Rightarrow> card option" where
  "find_owned_card s cid uid = find (\<lambda>k. card_id k = cid \<and> card_userId k = uid) (cards s)"

text \<open>\<^verbatim>\<open>router.post('/')\<close>, after authentication has fixed \<open>req_userId\<close>.\<close>

definition createPayment ::
  "create_env \<Rightarrow> create_request \<Rightarrow> state \<Rightarrow> (error + create_response) \<times> state" where
  "createPayment env r s =
     (if \<not> createPaymentSchema_ok r then (Inl SchemaValidationError, s)
      else case find_owned_card s (req_cardId r) (req_userId r) of
        None \<Rightarrow> (Inl (NotFoundError ''Card not found''), s)
      | Some c \<Rightarrow>
          if card_status c \<noteq> ACTIVE then (Inl ForbiddenError, s)
          else
            let outstanding = outstandingBalance s (req_cardId r) in
            if req_amount r > outstanding then (Inl ValidationError, s)
            else
              (case read_idempotency_key (req_idempotencyKey r) of
                 None \<Rightarrow> create_new env r c outstanding s
               | Some k \<Rightarrow>
                   (case find_by_idempotency_key env k (payments s) of
                      Inl _ \<Rightarrow>
                        create_new env r c outstanding
                          (s\<lparr>logs := logs s @ [LogIdempotencySkipped]\<rparr>)
                    | Inr None \<Rightarrow> create_new env r c outstanding s
                    | Inr (Some existing) \<Rightarrow>
                        (Inr (existing_response existing (freshOutstanding s (req_cardId r))),
                         s))))"

text \<open>The timer fires: the deferred call runs and an exception is only logged.\<close>

definition run_timer :: "faults \<Rightarrow> timer_task \<Rightarrow> state \<Rightarrow> state" where
  "run_timer f t s =
     (case processPayment f (task_paymentId t) (task_status t) (task_last4 t)
             (task_userId t) (task_amount t) None s of
        (Inl e, s') \<Rightarrow> s'\<lparr>logs := logs s' @ [LogTimerError (task_paymentId t)]\<rparr>
      | (Inr _, s') \<Rightarrow> s')"

section \<open>Double arithmetic\<close>

text \<open>
  A finite double is modelled by the rational number it denotes.  The operators \<^verbatim>\<open>+\<close>
  and \<^verbatim>\<open>-\<close> of the source compute the exact result and round it to 53 significant
  bits, to nearest, ties to even (\<open>fl\<close>); comparisons are exact.  The exponent is not
  bounded in the model: a sum or difference of doubles that falls below the normal range
  is exact in IEEE arithmetic and in the model alike, while overflow to Infinity (from
  \<open>2^1024\<close>), NaN and the sign of zero are left out.  A decimal literal \<open>d\<close> denotes the
  double \<open>fl d\<close>.
\<close>

text \<open>The number of binary digits of a natural number.\<close>

fun blen :: "nat \<Rightarrow> nat" where
  "blen n = (if n = 0 then 0 else Suc (blen (n div 2)))"

declare blen.simps [simp del]

definition pow2 :: "int \<Rightarrow> rat" where
  "pow2 k = (if 0 \<le> k then 2 ^ nat k else 1 / 2 ^ nat (- k))"

text \<open>The binary exponent of a positive number \<open>a\<close>: \<open>pow2 (expo a) \<le> a < pow2 (expo a + 1)\<close>.\<close>

definition expo :: "rat \<Rightarrow> int" where
  "expo a = (if 1 \<le> a then int (blen (nat \<lfloor>a\<rfloor>)) - 1
             else - int (blen (nat (\<lceil>1 / a\<rceil> - 1))))"

definition round_half_even :: "rat \<Rightarrow> int" where
  "round_half_even q =
     (let f = \<lfloor>q\<rfloor>; r = q - of_int f
      in if r < 1 / 2 then f else if 1 / 2 < r then f + 1
         else if even f then f else f + 1)"

definition fl :: "rat \<Rightarrow> rat" where
  "fl x = (if x = 0 then 0
           else let a = \<bar>x\<bar>; u = pow2 (expo a - 52)
                in sgn x * of_int (round_half_even (a / u)) * u)"

definition dadd :: "rat \<Rightarrow> rat \<Rightarrow> rat" where
  "dadd x y = fl (x + y)"

definition dsub :: "rat \<Rightarrow> rat \<Rightarrow> rat" where
  "dsub x y = fl (x - y)"

text \<open>A statement row whose balance is a double.\<close>

record dstatement =
  d_id :: int
  d_cardId :: int
  d_dueDate :: nat
  d_balance :: rat
  d_isPaid :: bool

text \<open>A row with a whole balance, read as a row of doubles.\<close>

definition whole_row :: "statement \<Rightarrow> dstatement" where
  "whole_row r = \<lparr>d_id = st_id r, d_cardId = st_cardId r, d_dueDate = dueDate r,
     d_balance = of_int (balance r), d_isPaid = isPaid r\<rparr>"

definition unpaid_of_d :: "int option \<Rightarrow> dstatement list \<Rightarrow> dstatement list" where
  "unpaid_of_d cid tbl = filter (\<lambda>s. Some (d_cardId s) = cid \<and> \<not> d_isPaid s) tbl"

definition findMany_unpaid_asc_d :: "int option \<Rightarrow> dstatement list \<Rightarrow> dstatement list" where
  "findMany_unpaid_asc_d cid tbl = sort_key d_dueDate (unpaid_of_d cid tbl)"

definition num_or_zero_d :: "rat \<Rightarrow> rat" where
  "num_or_zero_d x = (if x = 0 then 0 else x)"

text \<open>\<^verbatim>\<open>statements.reduce((sum, st) => sum + (Number(st.balance) || 0), 0)\<close> on doubles.\<close>

definition outstanding_of_d :: "dstatement list \<Rightarrow> rat" where
  "outstanding_of_d sts = foldl (\<lambda>sum st. dadd sum (num_or_zero_d (d_balance st))) 0 sts"

definition upd_at_d ::
  "int \<Rightarrow> (dstatement \<Rightarrow> dstatement) \<Rightarrow> dstatement list \<Rightarrow> dstatement list" where
  "upd_at_d i g tbl = map (\<lambda>r. if d_id r = i then g r else r) tbl"

definition statement_update_d ::
  "faults \<Rightarrow> int \<Rightarrow> (dstatement \<Rightarrow> dstatement) \<Rightarrow> dstatement list
     \<Rightarrow> error + dstatement list" where
  "statement_update_d f i g tbl =
     (if stmt_update_fails f i then Inl StorageError
      else if \<not> (\<exists>r \<in> set tbl. d_id r = i) then Inl RecordNotFound
      else Inr (upd_at_d i g tbl))"

definition pay_off_d :: "dstatement \<Rightarrow> dstatement" where
  "pay_off_d r = r\<lparr>d_isPaid := True, d_balance := 0\<rparr>"

definition pay_part_d :: "rat \<Rightarrow> dstatement \<Rightarrow> dstatement" where
  "pay_part_d b r = r\<lparr>d_balance := b\<rparr>"

text \<open>
  The loop of \<^verbatim>\<open>processPayment\<close> once more, with the subtractions
  \<^verbatim>\<open>remainingAmount -= paymentToUse\<close> and \<^verbatim>\<open>Number(statement.balance) - remainingAmount\<close>
  rounded as the source rounds them.
\<close>

fun apply_loop_d ::
  "faults \<Rightarrow> dstatement list \<Rightarrow> rat \<Rightarrow> dstatement list \<Rightarrow> (error + unit) \<times> dstatement list" where
  "apply_loop_d f [] remainingAmount tbl = (Inr (), tbl)"
| "apply_loop_d f (st # rest) remainingAmount tbl =
     (if remainingAmount \<le> 0 then (Inr (), tbl)
      else if remainingAmount \<ge> d_balance st then
        (case statement_update_d f (d_id st) pay_off_d tbl of
           Inl e \<Rightarrow> (Inl e, tbl)
         | Inr tbl' \<Rightarrow> apply_loop_d f rest (dsub remainingAmount (d_balance st)) tbl')
      else
        (case statement_update_d f (d_id st)
                (pay_part_d (dsub (d_balance st) remainingAmount)) tbl of
           Inl e \<Rightarrow> (Inl e, tbl)
         | Inr tbl' \<Rightarrow> apply_loop_d f rest 0 tbl'))"

text \<open>
  The statement part of a SUCCESS resolution: the unpaid statements of the card are
  fetched in order of due date and the loop runs over them.
\<close>

definition apply_payment_d ::
  "faults \<Rightarrow> int option \<Rightarrow> rat \<Rightarrow> dstatement list \<Rightarrow> (error + unit) \<times> dstatement list" where
  "apply_payment_d f cid amount tbl =
     apply_loop_d f (findMany_unpaid_asc_d cid tbl) amount tbl"

section \<open>Notions used to state the properties\<close>

definition total_balance :: "statement list \<Rightarrow> int" where
  "total_balance tbl = sum_list (map balance tbl)"

text \<open>The exact sum of the balances of a table of doubles.\<close>

definition total_balance_d :: "dstatement list \<Rightarrow> rat" where
  "total_balance_d tbl = sum_list (map d_balance tbl)"

definition pk_statements :: "statement list \<Rightarrow> bool" where
  "pk_statements tbl \<longleftrightarrow> distinct (map st_id tbl)"

definition nonneg_balances :: "statement list \<Rightarrow> bool" where
  "nonneg_balances tbl \<longleftrightarrow> list_all (\<lambda>r. 0 \<le> balance r) tbl"

definition paid_invariant :: "statement list \<Rightarrow> bool" where
  "paid_invariant tbl \<longleftrightarrow> list_all (\<lambda>r. isPaid r \<longrightarrow> balance r = 0) tbl"


text \<open>The payment the idempotency lookup of a creation request returns, if any.\<close>

definition idempotent_hit :: "create_env \<Rightarrow> create_request \<Rightarrow> state \<Rightarrow> payment option" where
  "idempotent_hit env r s =
     (case read_idempotency_key (req_idempotencyKey r) of
        None \<Rightarrow> None
      | Some k \<Rightarrow> (case find_by_idempotency_key env k (payments s) of
                   Inl _ \<Rightarrow> None | Inr x \<Rightarrow> x))"

definition covers :: "statement list \<Rightarrow> statement list \<Rightarrow> bool" where
  "covers tbl snap \<longleftrightarrow>
     distinct (map st_id tbl) \<and> set snap \<subseteq> set tbl \<and> distinct (map st_id snap)"

section \<open>Example states\<close>

definition card_A :: card where
  "card_A = \<lparr>card_id = 1, card_userId = 7, card_status = ACTIVE, last4 = ''4242''\<rparr>"

definition jan_statement :: statement where
  "jan_statement = \<lparr>st_id = 1, st_cardId = 1, dueDate = 10, balance = 300, isPaid = False\<rparr>"

definition feb_statement :: statement where
  "feb_statement = \<lparr>st_id = 2, st_cardId = 1, dueDate = 41, balance = 500, isPaid = False\<rparr>"

definition pending_payment :: "int \<Rightarrow> payment" where
  "pending_payment a = \<lparr>pay_id = ''p1'', pay_cardId = Some 1, pay_userId = 7, pay_amount = a,
     pay_method = ''bank'', pay_status = PENDING, externalId = None, idempotencyKey = None,
     createdAt = 0\<rparr>"

definition state_of :: "statement list \<Rightarrow> payment list \<Rightarrow> state" where
  "state_of sts ps = \<lparr>cards = [card_A], statements = sts, payments = ps, notifications = [],
     activities = [], timers = [], logs = []\<rparr>"

text \<open>The table lists the later statement first: the order of application comes from
  the due dates, not from the table.\<close>

definition fifo_state :: state where
  "fifo_state = state_of [feb_statement, jan_statement] [pending_payment 700]"

definition overpay_state :: state where
  "overpay_state = state_of [\<lparr>st_id = 1, st_cardId = 1, dueDate = 10, balance = 200,
     isPaid = False\<rparr>] [pending_payment 500]"

text \<open>A gateway payment that is not linked to a stored card.\<close>

definition gateway_payment :: payment where
  "gateway_payment = \<lparr>pay_id = ''rzp1'', pay_cardId = None, pay_userId = 7, pay_amount = 250,
     pay_method = ''razorpay'', pay_status = SUCCESS, externalId = Some ''pay_X'',
     idempotencyKey = None, createdAt = 3\<rparr>"

definition gateway_state :: state where
  "gateway_state = state_of [jan_statement] [gateway_payment]"

text \<open>The storage layer fails when the statement with id 2 is written.\<close>

definition feb_write_fails :: faults where
  "feb_write_fails = \<lparr>stmt_update_fails = (\<lambda>i. i = 2), notify_fails = False,
     activity_create_fails = False\<rparr>"

definition success_hook :: webhook_body where
  "success_hook = \<lparr>wh_paymentId = ''p1'', wh_status = ''SUCCESS'', wh_externalId = None\<rparr>"

text \<open>A payment of 200 against the two statements, for a webhook delivered twice.\<close>

definition dup_state :: state where
  "dup_state = state_of [feb_statement, jan_statement] [pending_payment 200]"

text \<open>Creation requests and what the environment supplies for them.\<close>

definition env_p :: "string \<Rightarrow> create_env" where
  "env_p i = \<lparr>gen_id = i, now = 5, rnd_success = True, has_idempotency_column = True\<rparr>"

definition request_of :: "int \<Rightarrow> string option \<Rightarrow> create_request" where
  "request_of a k = \<lparr>req_userId = 7, req_cardId = 1, req_amount = a, req_method = ''bank'',
     req_idempotencyKey = k\<rparr>"

definition open_state :: state where
  "open_state = state_of [feb_statement, jan_statement] []"

definition big_state :: state where
  "big_state = state_of [\<lparr>st_id = 1, st_cardId = 1, dueDate = 10, balance = 1500000,
     isPaid = False\<rparr>] []"

text \<open>A stored payment that carries an idempotency key.\<close>

definition keyed_payment :: payment where
  "keyed_payment = \<lparr>pay_id = ''p0'', pay_cardId = Some 1, pay_userId = 7, pay_amount = 100,
     pay_method = ''bank'', pay_status = SUCCESS, externalId = None,
     idempotencyKey = Some ''k1'', createdAt = 2\<rparr>"

definition keyed_state :: state where
  "keyed_state = state_of [feb_statement, jan_statement] [keyed_payment]"

text \<open>Statements of 0.1, 0.2 and 0.3, as doubles.\<close>

definition tenths_table :: "dstatement list" where
  "tenths_table =
     [\<lparr>d_id = 1, d_cardId = 1, d_dueDate = 10, d_balance = fl (1 / 10), d_isPaid = False\<rparr>,
      \<lparr>d_id = 2, d_cardId = 1, d_dueDate = 41, d_balance = fl (2 / 10), d_isPaid = False\<rparr>,
      \<lparr>d_id = 3, d_cardId = 1, d_dueDate = 72, d_balance = fl (3 / 10), d_isPaid = False\<rparr>]"

text \<open>The notification helper throws; nothing else fails.\<close>

definition notification_fails :: faults where
  "notification_fails = no_faults\<lparr>notify_fails := True\<rparr>"

section \<open>Row updates\<close>

lemma statement_update_no_fault:
  "\<not> stmt_update_fails f i \<Longrightarrow> \<exists>r \<in> set tbl. st_id r = i \<Longrightarrow>
   statement_update f i g tbl = Inr (upd_at i g tbl)"
  by (simp add: statement_update_def upd_at_def)

lemma statement_update_Inr:
  "statement_update f i g tbl = Inr t \<Longrightarrow> t = upd_at i g tbl"
  by (simp add: statement_update_def upd_at_def split: if_splits)

lemma upd_at_ids:
  "(\<And>r. st_id (g r) = st_id r) \<Longrightarrow> map st_id (upd_at i g tbl) = map st_id tbl"
  by (induction tbl) (simp_all add: upd_at_def)

lemma upd_at_absent:
  "i \<notin> st_id ` set tbl \<Longrightarrow> upd_at i g tbl = tbl"
  by (induction tbl) (auto simp: upd_at_def)

lemma upd_at_keeps:
  "r \<in> set tbl \<Longrightarrow> st_id r \<noteq> i \<Longrightarrow> r \<in> set (upd_at i g tbl)"
  by (induction tbl) (auto simp: upd_at_def)

lemma covers_step:
  assumes "covers tbl (st # rest)" and "\<And>r. st_id (g r) = st_id r"
  shows "covers (upd_at (st_id st) g tbl) rest"
proof -
  from assms(1) have d: "distinct (map st_id tbl)" and sub: "set (st # rest) \<subseteq> set tbl"
    and ds: "distinct (map st_id (st # rest))"
    by (simp_all add: covers_def)
  have "distinct (map st_id (upd_at (st_id st) g tbl))"
    using d assms(2) by (simp add: upd_at_ids)
  moreover have "set rest \<subseteq> set (upd_at (st_id st) g tbl)"
  proof
    fix r assume r: "r \<in> set rest"
    from ds have "st_id st \<notin> st_id ` set rest" by simp
    with r have "st_id r \<noteq> st_id st" by (metis imageI)
    moreover from r sub have "r \<in> set tbl" by auto
    ultimately show "r \<in> set (upd_at (st_id st) g tbl)" by (rule upd_at_keeps[rotated])
  qed
  moreover from ds have "distinct (map st_id rest)" by simp
  ultimately show ?thesis by (simp add: covers_def)
qed

lemma covers_head: "covers tbl (st # rest) \<Longrightarrow> st \<in> set tbl"
  by (simp add: covers_def)

lemma total_upd_at:
  "distinct (map st_id tbl) \<Longrightarrow> s \<in> set tbl \<Longrightarrow>
   total_balance (upd_at (st_id s) g tbl) = total_balance tbl - balance s + balance (g s)"
proof (induction tbl)
  case Nil
  then show ?case by simp
next
  case (Cons r tbl)
  show ?case
  proof (cases "r = s")
    case True
    with Cons.prems have "st_id s \<notin> st_id ` set tbl" by auto
    then have "upd_at (st_id s) g tbl = tbl" by (rule upd_at_absent)
    then have "upd_at (st_id s) g (r # tbl) = g s # tbl"
      using True by (simp add: upd_at_def)
    then show ?thesis using True by (simp add: total_balance_def)
  next
    case False
    with Cons.prems have in_tl: "s \<in> set tbl" and ne: "st_id r \<noteq> st_id s" by auto
    have "total_balance (upd_at (st_id s) g tbl) = total_balance tbl - balance s + balance (g s)"
      using Cons.IH Cons.prems in_tl by simp
    moreover have "upd_at (st_id s) g (r # tbl) = r # upd_at (st_id s) g tbl"
      using ne by (simp add: upd_at_def)
    ultimately show ?thesis by (simp add: total_balance_def)
  qed
qed




section \<open>The loop\<close>

lemma pay_off_id [simp]: "st_id (pay_off r) = st_id r"
  by (simp add: pay_off_def)

lemma pay_part_id [simp]: "st_id (pay_part b r) = st_id r"
  by (simp add: pay_part_def)

lemma statement_update_row:
  "statement_update f i g tbl = Inr t \<Longrightarrow> \<exists>r \<in> set tbl. st_id r = i"
  by (simp add: statement_update_def split: if_splits)

lemma apply_loop_stop: "rem \<le> 0 \<Longrightarrow> apply_loop f snap rem tbl = (Inr (), tbl)"
  by (cases snap) simp_all

text \<open>The three ways one iteration can succeed.\<close>

lemma apply_loop_Cons_Inr:
  assumes "apply_loop f (st # rest) rem tbl = (Inr (), t)"
  obtains (stop) "rem \<le> 0" "t = tbl"
  | (full) "0 < rem" "balance st \<le> rem"
      "apply_loop f rest (rem - balance st) (upd_at (st_id st) pay_off tbl) = (Inr (), t)"
      "\<exists>r \<in> set tbl. st_id r = st_id st"
  | (part) "0 < rem" "rem < balance st"
      "t = upd_at (st_id st) (pay_part (balance st - rem)) tbl"
      "\<exists>r \<in> set tbl. st_id r = st_id st"
proof (cases "rem \<le> 0")
  case True
  with assms have "t = tbl" by simp
  with True show ?thesis by (rule stop)
next
  case pos: False
  show ?thesis
  proof (cases "balance st \<le> rem")
    case True
    with pos assms obtain tbl' where u: "statement_update f (st_id st) pay_off tbl = Inr tbl'"
      and l: "apply_loop f rest (rem - balance st) tbl' = (Inr (), t)"
      by (auto split: sum.splits)
    from u have "tbl' = upd_at (st_id st) pay_off tbl" by (rule statement_update_Inr)
    moreover from u have "\<exists>r \<in> set tbl. st_id r = st_id st" by (rule statement_update_row)
    ultimately show ?thesis using l pos True by (intro full) simp_all
  next
    case False
    with pos assms obtain tbl' where
      u: "statement_update f (st_id st) (pay_part (balance st - rem)) tbl = Inr tbl'"
      and l: "apply_loop f rest 0 tbl' = (Inr (), t)"
      by (auto split: sum.splits)
    from u have "tbl' = upd_at (st_id st) (pay_part (balance st - rem)) tbl"
      by (rule statement_update_Inr)
    moreover from l have "t = tbl'" by (simp add: apply_loop_stop)
    moreover from u have "\<exists>r \<in> set tbl. st_id r = st_id st" by (rule statement_update_row)
    ultimately show ?thesis using pos False by (intro part) simp_all
  qed
qed

lemma apply_loop_success:
  "\<forall>s \<in> set snap. \<not> stmt_update_fails f (st_id s) \<Longrightarrow>
   set (map st_id snap) \<subseteq> set (map st_id tbl) \<Longrightarrow>
   fst (apply_loop f snap rem tbl) = Inr ()"
proof (induction snap arbitrary: rem tbl)
  case Nil
  then show ?case by simp
next
  case (Cons st rest)
  from Cons.prems have ok: "\<not> stmt_update_fails f (st_id st)"
    and ex: "\<exists>r \<in> set tbl. st_id r = st_id st" by auto
  have step: "fst (apply_loop f rest r' (upd_at (st_id st) g tbl)) = Inr ()"
    if "\<And>r. st_id (g r) = st_id r" for g r'
  proof (rule Cons.IH)
    show "\<forall>s \<in> set rest. \<not> stmt_update_fails f (st_id s)" using Cons.prems by simp
    show "set (map st_id rest) \<subseteq> set (map st_id (upd_at (st_id st) g tbl))"
      using Cons.prems(2) that by (simp add: upd_at_ids)
  qed
  show ?case
    using ok ex step[of pay_off] step[of "pay_part (balance st - rem)"]
    by (simp add: statement_update_no_fault)
qed

lemma apply_loop_ids: "map st_id (snd (apply_loop f snap rem tbl)) = map st_id tbl"
proof (induction snap arbitrary: rem tbl)
  case Nil
  then show ?case by simp
next
  case (Cons st rest)
  have step: "map st_id (snd (apply_loop f rest r' t')) = map st_id tbl"
    if "statement_update f (st_id st) g tbl = Inr t'" "\<And>r. st_id (g r) = st_id r" for g r' t'
  proof -
    from that(1) have "t' = upd_at (st_id st) g tbl" by (rule statement_update_Inr)
    with that(2) have "map st_id t' = map st_id tbl" by (simp add: upd_at_ids)
    with Cons.IH[of r' t'] show ?thesis by simp
  qed
  show ?case
    by (auto simp: step split: sum.splits)
qed

lemma sum_nonneg_snapshot:
  "\<forall>s \<in> set snap. 0 \<le> balance s \<Longrightarrow> 0 \<le> total_balance snap"
  unfolding total_balance_def by (rule sum_list_nonneg) auto

lemma apply_loop_total:
  assumes "apply_loop f snap rem tbl = (Inr (), t)" and "covers tbl snap"
    and "\<forall>s \<in> set snap. 0 \<le> balance s" and "0 \<le> rem"
  shows "total_balance tbl - total_balance t = min rem (total_balance snap)"
  using assms
proof (induction snap arbitrary: rem tbl)
  case Nil
  then show ?case by (simp add: total_balance_def)
next
  case (Cons st rest)
  from Cons.prems(2) have d: "distinct (map st_id tbl)" and mem: "st \<in> set tbl"
    by (simp_all add: covers_def)
  from Cons.prems(3) have nn: "0 \<le> total_balance rest" "0 \<le> balance st"
    by (simp_all add: sum_nonneg_snapshot)
  have tot: "total_balance (st # rest) = balance st + total_balance rest"
    by (simp add: total_balance_def)
  from Cons.prems(1) show ?case
  proof (cases rule: apply_loop_Cons_Inr)
    case stop
    with Cons.prems(4) nn tot show ?thesis by simp
  next
    case full
    have "total_balance (upd_at (st_id st) pay_off tbl) - total_balance t =
            min (rem - balance st) (total_balance rest)"
    proof (rule Cons.IH[OF full(3)])
      show "covers (upd_at (st_id st) pay_off tbl) rest"
        using Cons.prems(2) by (rule covers_step) simp
      show "\<forall>s \<in> set rest. 0 \<le> balance s" using Cons.prems(3) by simp
      show "0 \<le> rem - balance st" using full(2) by simp
    qed
    moreover have "total_balance (upd_at (st_id st) pay_off tbl) = total_balance tbl - balance st"
      using total_upd_at[OF d mem, of pay_off] by (simp add: pay_off_def)
    ultimately show ?thesis using tot by (auto simp: min_def)
  next
    case part
    have "total_balance t = total_balance tbl - rem"
      using total_upd_at[OF d mem, of "pay_part (balance st - rem)"] part(3)
      by (simp add: pay_part_def)
    with part(1,2) nn tot show ?thesis by (simp add: min_def)
  qed
qed

lemma upd_at_list_all:
  "list_all P tbl \<Longrightarrow> (\<And>r. r \<in> set tbl \<Longrightarrow> st_id r = i \<Longrightarrow> P (g r)) \<Longrightarrow> list_all P (upd_at i g tbl)"
  by (induction tbl) (auto simp: upd_at_def)

lemma apply_loop_nonneg:
  assumes "apply_loop f snap rem tbl = (Inr (), t)" and "nonneg_balances tbl"
  shows "nonneg_balances t"
  using assms
proof (induction snap arbitrary: rem tbl)
  case Nil
  then show ?case by simp
next
  case (Cons st rest)
  from Cons.prems(1) show ?case
  proof (cases rule: apply_loop_Cons_Inr)
    case stop
    with Cons.prems(2) show ?thesis by simp
  next
    case full
    have "nonneg_balances (upd_at (st_id st) pay_off tbl)"
      unfolding nonneg_balances_def
      by (rule upd_at_list_all) (use Cons.prems(2) in \<open>simp_all add: nonneg_balances_def pay_off_def\<close>)
    with Cons.IH[OF full(3)] show ?thesis .
  next
    case part
    show ?thesis
      unfolding nonneg_balances_def part(3)
      by (rule upd_at_list_all)
         (use Cons.prems(2) part(2) in \<open>simp_all add: nonneg_balances_def pay_part_def\<close>)
  qed
qed

lemma apply_loop_paid_invariant:
  assumes "apply_loop f snap rem tbl = (Inr (), t)" and "covers tbl snap"
    and "\<forall>s \<in> set snap. \<not> isPaid s" and "paid_invariant tbl"
  shows "paid_invariant t"
  using assms
proof (induction snap arbitrary: rem tbl)
  case Nil
  then show ?case by simp
next
  case (Cons st rest)
  from Cons.prems(2) have d: "distinct (map st_id tbl)" and mem: "st \<in> set tbl"
    by (simp_all add: covers_def)
  have same: "r = st" if "r \<in> set tbl" "st_id r = st_id st" for r
    using d mem that by (meson distinct_map inj_onD)
  from Cons.prems(1) show ?case
  proof (cases rule: apply_loop_Cons_Inr)
    case stop
    with Cons.prems(4) show ?thesis by simp
  next
    case full
    have "paid_invariant (upd_at (st_id st) pay_off tbl)"
      unfolding paid_invariant_def
      by (rule upd_at_list_all) (use Cons.prems(4) in \<open>simp_all add: paid_invariant_def pay_off_def\<close>)
    moreover have "covers (upd_at (st_id st) pay_off tbl) rest"
      using Cons.prems(2) by (rule covers_step) simp
    ultimately show ?thesis using Cons.IH[OF full(3)] Cons.prems(3) by simp
  next
    case part
    show ?thesis
      unfolding paid_invariant_def part(3)
    proof (rule upd_at_list_all)
      show "list_all (\<lambda>r. isPaid r \<longrightarrow> balance r = 0) tbl"
        using Cons.prems(4) by (simp add: paid_invariant_def)
      fix r assume "r \<in> set tbl" "st_id r = st_id st"
      then have "r = st" by (rule same)
      with Cons.prems(3) show "isPaid (pay_part (balance st - rem) r) \<longrightarrow>
          balance (pay_part (balance st - rem) r) = 0"
        by (simp add: pay_part_def)
    qed
  qed
qed



text \<open>Facts about the snapshot that \<open>findMany\<close> returns.\<close>

lemma distinct_ids_insort:
  "distinct (map st_id (insort_key k x xs)) \<longleftrightarrow> st_id x \<notin> st_id ` set xs \<and> distinct (map st_id xs)"
  by (induction xs) (auto simp: set_insort_key)

lemma distinct_ids_sort:
  "distinct (map st_id (sort_key k xs)) \<longleftrightarrow> distinct (map st_id xs)"
  by (induction xs) (simp_all add: distinct_ids_insort)

lemma total_insort: "total_balance (insort_key k x xs) = balance x + total_balance xs"
  by (induction xs) (simp_all add: total_balance_def)

lemma total_sort: "total_balance (sort_key k xs) = total_balance xs"
proof (induction xs)
  case Nil
  show ?case by simp
next
  case (Cons x xs)
  have "total_balance (sort_key k (x # xs)) = balance x + total_balance (sort_key k xs)"
    by (simp add: total_insort)
  also have "\<dots> = total_balance (x # xs)"
    using Cons.IH by (simp add: total_balance_def)
  finally show ?case .
qed

lemma foldl_outstanding:
  "foldl (\<lambda>sum st. sum + num_or_zero (balance st)) a sts = a + total_balance sts"
  by (induction sts arbitrary: a) (simp_all add: total_balance_def num_or_zero_def)

lemma outstanding_of_total: "outstanding_of sts = total_balance sts"
  by (simp add: outstanding_of_def foldl_outstanding)

lemma snapshot_set: "set (findMany_unpaid_asc cid tbl) = set (unpaid_of cid tbl)"
  by (simp add: findMany_unpaid_asc_def)


lemma snapshot_covers:
  "pk_statements tbl \<Longrightarrow> covers tbl (findMany_unpaid_asc cid tbl)"
  by (auto simp: covers_def pk_statements_def findMany_unpaid_asc_def unpaid_of_def
      distinct_ids_sort distinct_map_filter)

lemma snapshot_unpaid: "\<forall>s \<in> set (findMany_unpaid_asc cid tbl). \<not> isPaid s"
  by (simp add: findMany_unpaid_asc_def unpaid_of_def)

lemma snapshot_total:
  "total_balance (findMany_unpaid_asc cid tbl) = total_balance (unpaid_of cid tbl)"
  by (simp add: findMany_unpaid_asc_def total_sort)

lemma snapshot_ids_in_table:
  "set (map st_id (findMany_unpaid_asc cid tbl)) \<subseteq> set (map st_id tbl)"
  by (auto simp: findMany_unpaid_asc_def unpaid_of_def)

lemma snapshot_no_faults_success:
  "fst (apply_loop no_faults (findMany_unpaid_asc cid tbl) rem tbl) = Inr ()"
  by (rule apply_loop_success) (simp add: no_faults_def, rule snapshot_ids_in_table)

section \<open>Resolution as a whole\<close>

lemma apply_loop_fault_free:
  assumes "apply_loop f snap rem tbl = (Inr (), t)"
  shows "apply_loop no_faults snap rem tbl = (Inr (), t)"
  using assms
proof (induction snap arbitrary: rem tbl)
  case Nil
  then show ?case by simp
next
  case (Cons st rest)
  have nf: "\<not> stmt_update_fails no_faults (st_id st)" by (simp add: no_faults_def)
  from Cons.prems show ?case
  proof (cases rule: apply_loop_Cons_Inr)
    case stop
    then show ?thesis by simp
  next
    case full
    from Cons.IH[OF full(3)] full(1,2) statement_update_no_fault[OF nf full(4)]
    show ?thesis by simp
  next
    case part
    from part statement_update_no_fault[OF nf part(4)]
    show ?thesis by (simp add: apply_loop_stop)
  qed
qed

lemma logActivity_tables [simp]:
  "payments (logActivity f a s) = payments s"
  "statements (logActivity f a s) = statements s"
  "cards (logActivity f a s) = cards s"
  "notifications (logActivity f a s) = notifications s"
  "timers (logActivity f a s) = timers s"
  by (simp_all add: logActivity_def)

lemma notification_tables:
  "createPaymentNotification f oc uid amt lf s = (r, s') \<Longrightarrow>
   payments s' = payments s \<and> statements s' = statements s \<and> cards s' = cards s \<and>
   timers s' = timers s \<and> activities s' = activities s \<and> logs s' = logs s"
  by (auto simp: createPaymentNotification_def split: if_splits)

lemma notification_result:
  "fst (createPaymentNotification f oc uid amt lf s) =
     (if notify_fails f then Inl NotificationError else Inr ())"
  by (simp add: createPaymentNotification_def)

lemma set_resolution_fields [simp]:
  "pay_id (set_resolution st ext p) = pay_id p"
  "pay_cardId (set_resolution st ext p) = pay_cardId p"
  "pay_status (set_resolution st ext p) = st"
  "pay_amount (set_resolution st ext p) = pay_amount p"
  "pay_userId (set_resolution st ext p) = pay_userId p"
  by (simp_all add: set_resolution_def)

lemma payment_update_cases:
  "payment_update pid st ext tbl =
     (case find (\<lambda>p. pay_id p = pid) tbl of None \<Rightarrow> Inl RecordNotFound
      | Some p \<Rightarrow> Inr (set_resolution st ext p, resolve_row pid st ext tbl))"
  by (simp add: payment_update_def)

text \<open>A failed resolution leaves both transactional tables as they were.\<close>

lemma processPayment_Inl:
  assumes "processPayment f pid st lf uid amt ext s = (Inl e, s')"
  shows "payments s' = payments s \<and> statements s' = statements s"
  using assms
  by (auto simp: processPayment_def rollback_def split: prod.splits sum.splits)

lemma processPayment_missing:
  "find (\<lambda>p. pay_id p = pid) (payments s) = None \<Longrightarrow>
   fst (processPayment f pid st lf uid amt ext s) = Inl RecordNotFound"
  by (simp add: processPayment_def processPayment_body_def payment_update_cases)

text \<open>The outcome of a SUCCESS resolution, in terms of the loop.\<close>

lemma processPayment_SUCCESS:
  assumes "find (\<lambda>p. pay_id p = pid) (payments s) = Some p"
    and "apply_loop f (findMany_unpaid_asc (pay_cardId p) (statements s)) amt (statements s) = (r, t)"
  shows "fst (processPayment f pid SUCCESS lf uid amt ext s) =
           (case r of Inl e \<Rightarrow> Inl e
            | Inr _ \<Rightarrow> if notify_fails f then Inl NotificationError else Inr ())"
    and "fst (processPayment f pid SUCCESS lf uid amt ext s) = Inr () \<Longrightarrow>
           statements (snd (processPayment f pid SUCCESS lf uid amt ext s)) = t \<and>
           payments (snd (processPayment f pid SUCCESS lf uid amt ext s)) =
             resolve_row pid SUCCESS ext (payments s)"
  using assms
  by (auto simp: processPayment_def processPayment_body_def payment_update_cases Let_def
      createPaymentNotification_def rollback_def split: sum.splits)

lemma processPayment_other:
  assumes "find (\<lambda>p. pay_id p = pid) (payments s) = Some p" and "st \<noteq> SUCCESS"
  shows "fst (processPayment f pid st lf uid amt ext s) =
           (if notify_fails f then Inl NotificationError else Inr ())"
    and "fst (processPayment f pid st lf uid amt ext s) = Inr () \<Longrightarrow>
           statements (snd (processPayment f pid st lf uid amt ext s)) = statements s \<and>
           payments (snd (processPayment f pid st lf uid amt ext s)) =
             resolve_row pid st ext (payments s)"
  using assms
  by (auto simp: processPayment_def processPayment_body_def payment_update_cases Let_def
      createPaymentNotification_def rollback_def split: sum.splits)

lemma processPayment_statements_other:
  "st \<noteq> SUCCESS \<Longrightarrow> statements (snd (processPayment f pid st lf uid amt ext s)) = statements s"
  by (auto simp: processPayment_def processPayment_body_def payment_update_cases Let_def
      createPaymentNotification_def rollback_def split: sum.splits option.splits)

section \<open>Properties of resolution\<close>

lemmas example_defs = card_A_def jan_statement_def feb_statement_def pending_payment_def
  state_of_def fifo_state_def overpay_state_def gateway_payment_def gateway_state_def
  feb_write_fails_def success_hook_def dup_state_def env_p_def request_of_def open_state_def
  big_state_def keyed_payment_def keyed_state_def notification_fails_def

lemmas run_defs = processPayment_def processPayment_body_def payment_update_def
  resolve_row_def set_resolution_def findMany_unpaid_asc_def unpaid_of_def
  statement_update_def upd_at_def pay_off_def pay_part_def no_faults_def
  createPaymentNotification_def logActivity_def payment_activity_def rollback_def

lemma processPayment_no_faults_SUCCESS:
  assumes "find (\<lambda>p. pay_id p = pid) (payments s) = Some p"
  shows "fst (processPayment no_faults pid SUCCESS lf uid amt ext s) = Inr ()"
    and "apply_loop no_faults (findMany_unpaid_asc (pay_cardId p) (statements s)) amt
           (statements s) =
         (Inr (), statements (snd (processPayment no_faults pid SUCCESS lf uid amt ext s)))"
    and "payments (snd (processPayment no_faults pid SUCCESS lf uid amt ext s)) =
           resolve_row pid SUCCESS ext (payments s)"
proof -
  obtain r t where l: "apply_loop no_faults (findMany_unpaid_asc (pay_cardId p) (statements s))
      amt (statements s) = (r, t)"
    by (cases "apply_loop no_faults (findMany_unpaid_asc (pay_cardId p) (statements s))
      amt (statements s)")
  have "fst (apply_loop no_faults (findMany_unpaid_asc (pay_cardId p) (statements s))
      amt (statements s)) = Inr ()"
    by (rule snapshot_no_faults_success)
  with l have r: "r = Inr ()" by simp
  have nf: "\<not> notify_fails no_faults" by (simp add: no_faults_def)
  from processPayment_SUCCESS(1)[OF assms l, where lf = lf and uid = uid and ext = ext] r nf
  show ok: "fst (processPayment no_faults pid SUCCESS lf uid amt ext s) = Inr ()" by simp
  from processPayment_SUCCESS(2)[OF assms l ok] l r
  show "apply_loop no_faults (findMany_unpaid_asc (pay_cardId p) (statements s)) amt
           (statements s) =
         (Inr (), statements (snd (processPayment no_faults pid SUCCESS lf uid amt ext s)))"
    and "payments (snd (processPayment no_faults pid SUCCESS lf uid amt ext s)) =
           resolve_row pid SUCCESS ext (payments s)"
    by simp_all
qed

subsection \<open>Oldest due first\<close>




lemma unpaid_total_upd_at:
  assumes "distinct (map st_id tbl)" and "s \<in> set tbl" and "Some (st_cardId s) = cid"
    and "\<not> isPaid s" and "st_cardId (g s) = st_cardId s"
  shows "total_balance (unpaid_of cid (upd_at (st_id s) g tbl)) =
         total_balance (unpaid_of cid tbl) - balance s + (if isPaid (g s) then 0 else balance (g s))"
  using assms(1,2)
proof (induction tbl)
  case Nil
  then show ?case by simp
next
  case (Cons r tbl)
  show ?case
  proof (cases "r = s")
    case True
    with Cons.prems have "st_id s \<notin> st_id ` set tbl" by auto
    then have "upd_at (st_id s) g tbl = tbl" by (rule upd_at_absent)
    then have "upd_at (st_id s) g (r # tbl) = g s # tbl"
      using True by (simp add: upd_at_def)
    then show ?thesis
      using True assms(3,4,5) by (simp add: total_balance_def unpaid_of_def)
  next
    case False
    with Cons.prems have in_tl: "s \<in> set tbl" and ne: "st_id r \<noteq> st_id s" by auto
    have "total_balance (unpaid_of cid (upd_at (st_id s) g tbl)) =
         total_balance (unpaid_of cid tbl) - balance s + (if isPaid (g s) then 0 else balance (g s))"
      using Cons.IH Cons.prems in_tl by simp
    moreover have "upd_at (st_id s) g (r # tbl) = r # upd_at (st_id s) g tbl"
      using ne by (simp add: upd_at_def)
    ultimately show ?thesis by (simp add: total_balance_def unpaid_of_def)
  qed
qed

lemma apply_loop_unpaid_total:
  assumes "apply_loop f snap rem tbl = (Inr (), t)" and "covers tbl snap"
    and "\<forall>s \<in> set snap. 0 \<le> balance s \<and> \<not> isPaid s \<and> Some (st_cardId s) = cid"
    and "0 \<le> rem"
  shows "total_balance (unpaid_of cid tbl) - total_balance (unpaid_of cid t) =
         min rem (total_balance snap)"
  using assms
proof (induction snap arbitrary: rem tbl)
  case Nil
  then show ?case by (simp add: total_balance_def)
next
  case (Cons st rest)
  from Cons.prems(2) have d: "distinct (map st_id tbl)" and mem: "st \<in> set tbl"
    by (simp_all add: covers_def)
  from Cons.prems(3) have st: "Some (st_cardId st) = cid" "\<not> isPaid st" by simp_all
  from Cons.prems(3) have nn: "0 \<le> total_balance rest" "0 \<le> balance st"
    by (simp_all add: sum_nonneg_snapshot)
  have tot: "total_balance (st # rest) = balance st + total_balance rest"
    by (simp add: total_balance_def)
  from Cons.prems(1) show ?case
  proof (cases rule: apply_loop_Cons_Inr)
    case stop
    with Cons.prems(4) nn tot show ?thesis by simp
  next
    case full
    have "total_balance (unpaid_of cid (upd_at (st_id st) pay_off tbl)) -
            total_balance (unpaid_of cid t) = min (rem - balance st) (total_balance rest)"
    proof (rule Cons.IH[OF full(3)])
      show "covers (upd_at (st_id st) pay_off tbl) rest"
        using Cons.prems(2) by (rule covers_step) simp
      show "\<forall>s \<in> set rest. 0 \<le> balance s \<and> \<not> isPaid s \<and> Some (st_cardId s) = cid"
        using Cons.prems(3) by simp
      show "0 \<le> rem - balance st" using full(2) by simp
    qed
    moreover have "total_balance (unpaid_of cid (upd_at (st_id st) pay_off tbl)) =
        total_balance (unpaid_of cid tbl) - balance st"
      using unpaid_total_upd_at[OF d mem st, of pay_off] by (simp add: pay_off_def)
    ultimately show ?thesis using tot by (auto simp: min_def)
  next
    case part
    have "total_balance (unpaid_of cid t) = total_balance (unpaid_of cid tbl) - rem"
      using unpaid_total_upd_at[OF d mem st, of "pay_part (balance st - rem)"] part(3) st(2)
      by (simp add: pay_part_def)
    with part(1,2) nn tot show ?thesis by (simp add: min_def)
  qed
qed

lemma outstanding_snapshot:
  "outstanding_of (findMany_unpaid_asc cid tbl) = total_balance (unpaid_of cid tbl)"
  by (simp add: outstanding_of_total snapshot_total)

lemma snapshot_facts:
  "nonneg_balances tbl \<Longrightarrow>
   \<forall>s \<in> set (findMany_unpaid_asc cid tbl). 0 \<le> balance s \<and> \<not> isPaid s \<and> Some (st_cardId s) = cid"
  by (auto simp: snapshot_set unpaid_of_def nonneg_balances_def list_all_iff)

section \<open>Double arithmetic on whole amounts\<close>

lemma blen_le: "n < 2 ^ k \<Longrightarrow> blen n \<le> k"
proof (induction k arbitrary: n)
  case 0
  then show ?case by (simp add: blen.simps)
next
  case (Suc k)
  show ?case
  proof (cases "n = 0")
    case True
    then show ?thesis by (simp add: blen.simps)
  next
    case False
    from Suc.prems have "n div 2 < 2 ^ k" by simp
    then have "blen (n div 2) \<le> k" by (rule Suc.IH)
    with False show ?thesis by (simp add: blen.simps[of n])
  qed
qed

lemma blen_pos: "0 < n \<Longrightarrow> 0 < blen n"
  by (simp add: blen.simps[of n])

lemma round_half_even_of_int: "round_half_even (of_int m) = m"
  by (simp add: round_half_even_def)

lemma fl_of_int:
  assumes "\<bar>n\<bar> < 2 ^ 53"
  shows "fl (of_int n) = of_int n"
proof (cases "n = 0")
  case True
  then show ?thesis by (simp add: fl_def)
next
  case False
  let ?m = "nat \<bar>n\<bar>"
  let ?b = "blen ?m"
  from False have m_pos: "0 < ?m" by simp
  have "?m < 2 ^ 53" using assms by (simp add: nat_less_iff)
  then have b_le: "?b \<le> 53" by (rule blen_le)
  from m_pos have b_pos: "0 < ?b" by (rule blen_pos)
  have abs_eq: "\<bar>of_int n :: rat\<bar> = of_int \<bar>n\<bar>" by simp
  have ge1: "(1 :: rat) \<le> of_int \<bar>n\<bar>"
  proof -
    from False have "1 \<le> \<bar>n\<bar>" by simp
    then have "(of_int 1 :: rat) \<le> of_int \<bar>n\<bar>" by (simp only: of_int_le_iff)
    then show ?thesis by simp
  qed
  have ex: "expo (of_int \<bar>n\<bar>) = int ?b - 1"
    unfolding expo_def by (simp only: ge1 if_True floor_of_int)
  let ?j = "53 - ?b"
  have u: "pow2 (expo (of_int \<bar>n\<bar>) - 52) = 1 / 2 ^ ?j"
  proof -
    have e52: "int ?b - 1 - 52 = - int ?j" using b_le by arith
    have "pow2 (int ?b - 1 - 52) = pow2 (- int ?j)" by (simp only: e52)
    also have "\<dots> = 1 / 2 ^ ?j" by (cases "?j = 0") (simp_all add: pow2_def)
    finally show ?thesis by (simp only: ex)
  qed
  have q: "(of_int \<bar>n\<bar> :: rat) / (1 / 2 ^ ?j) = of_int (\<bar>n\<bar> * 2 ^ ?j)" by simp
  have "fl (of_int n) = sgn (of_int n) * of_int (round_half_even (of_int (\<bar>n\<bar> * 2 ^ ?j))) * (1 / 2 ^ ?j)"
    using False by (simp only: fl_def Let_def abs_eq u q) simp
  also have "\<dots> = sgn (of_int n) * of_int (\<bar>n\<bar> * 2 ^ ?j) * (1 / 2 ^ ?j)"
    by (simp only: round_half_even_of_int)
  also have "\<dots> = sgn (of_int n) * of_int \<bar>n\<bar>" by simp
  also have "\<dots> = of_int n" by (simp add: sgn_if)
  finally show ?thesis .
qed

lemma round_half_even_nonneg: "0 \<le> q \<Longrightarrow> 0 \<le> round_half_even q"
  by (simp add: round_half_even_def Let_def)

lemma pow2_pos: "0 < pow2 k"
  by (simp add: pow2_def)

lemma fl_nonneg: "0 \<le> x \<Longrightarrow> 0 \<le> fl x"
proof (cases "x = 0")
  case True
  then show ?thesis by (simp add: fl_def)
next
  case False
  assume "0 \<le> x"
  with False have pos: "0 < x" by simp
  let ?u = "pow2 (expo \<bar>x\<bar> - 52)"
  have "0 \<le> \<bar>x\<bar> / ?u" using pow2_pos[of "expo \<bar>x\<bar> - 52"] by simp
  then have "0 \<le> round_half_even (\<bar>x\<bar> / ?u)" by (rule round_half_even_nonneg)
  then have "0 \<le> (of_int (round_half_even (\<bar>x\<bar> / ?u)) :: rat) * ?u"
    using pow2_pos[of "expo \<bar>x\<bar> - 52"] by simp
  with pos False show ?thesis by (simp add: fl_def Let_def)
qed

text \<open>The exponent that \<open>fl\<close> rounds at is the binary exponent of the number.\<close>

lemma blen_one: "blen (Suc 0) = Suc 0"
  by (simp add: blen.simps[of "Suc 0"] blen.simps[of 0])

lemma blen_bounds:
  "0 < n \<Longrightarrow> 2 ^ (blen n - 1) \<le> n \<and> n < 2 ^ blen n"
proof (induction n rule: blen.induct)
  case (1 n)
  show ?case
  proof (cases "n div 2 = 0")
    case True
    with "1.prems" have "n = 1" by (simp add: div_eq_0_iff)
    then show ?thesis by (simp add: blen_one)
  next
    case False
    then have pos: "0 < n div 2" by simp
    from "1.prems" have n0: "n \<noteq> 0" by simp
    from "1.IH"[OF n0 pos] have lo: "2 ^ (blen (n div 2) - 1) \<le> n div 2"
      and hi: "n div 2 < 2 ^ blen (n div 2)" by simp_all
    have b: "blen n = Suc (blen (n div 2))" using n0 by (simp add: blen.simps[of n])
    from pos have bp: "0 < blen (n div 2)" by (rule blen_pos)
    then have e: "blen n - 1 = Suc (blen (n div 2) - 1)" using b by simp
    have "2 ^ (blen n - 1) = 2 * 2 ^ (blen (n div 2) - 1)" unfolding e by simp
    also have "\<dots> \<le> 2 * (n div 2)" using lo by simp
    also have "\<dots> \<le> n" by simp
    finally have l: "2 ^ (blen n - 1) \<le> n" .
    have "n < 2 * (n div 2) + 2" by arith
    also have "\<dots> \<le> 2 * 2 ^ blen (n div 2)" using hi by simp
    also have "\<dots> = 2 ^ blen n" unfolding b by simp
    finally have "n < 2 ^ blen n" .
    with l show ?thesis by simp
  qed
qed

lemma expo_bounds:
  assumes "0 < a"
  shows "pow2 (expo a) \<le> a \<and> a < pow2 (expo a + 1)"
proof (cases "1 \<le> a")
  case True
  let ?n = "nat \<lfloor>a\<rfloor>"
  from True have fl1: "1 \<le> \<lfloor>a\<rfloor>" by simp
  then have npos: "0 < ?n" by simp
  from blen_bounds[OF npos] have lo: "2 ^ (blen ?n - 1) \<le> ?n" and hi: "?n < 2 ^ blen ?n"
    by simp_all
  from npos have bp: "0 < blen ?n" by (rule blen_pos)
  have ex: "expo a = int (blen ?n) - 1" using True by (simp add: expo_def)
  have n_eq: "(of_nat ?n :: rat) = of_int \<lfloor>a\<rfloor>" using fl1 by simp
  have p1: "pow2 (expo a) = 2 ^ (blen ?n - 1)"
    using bp by (simp add: ex pow2_def nat_diff_distrib')
  have p2: "pow2 (expo a + 1) = 2 ^ blen ?n"
    by (simp add: ex pow2_def)
  have "(2 :: rat) ^ (blen ?n - 1) \<le> of_nat ?n"
    using lo by (metis of_nat_le_iff of_nat_numeral of_nat_power)
  also have "\<dots> \<le> a" unfolding n_eq by simp
  finally have l: "pow2 (expo a) \<le> a" unfolding p1 .
  from hi have "Suc ?n \<le> 2 ^ blen ?n" by (rule Suc_leI)
  then have "(of_nat (Suc ?n) :: rat) \<le> 2 ^ blen ?n"
    by (metis of_nat_le_iff of_nat_numeral of_nat_power)
  moreover have "a < of_nat (Suc ?n)"
  proof -
    have "a < of_int \<lfloor>a\<rfloor> + 1" by linarith
    then show ?thesis by (simp only: of_nat_Suc n_eq add.commute)
  qed
  ultimately have "a < pow2 (expo a + 1)" unfolding p2 by simp
  with l show ?thesis by simp
next
  case False
  with assms have a1: "a < 1" by simp
  let ?y = "1 / a"
  let ?m = "nat (\<lceil>?y\<rceil> - 1)"
  from assms a1 have y1: "1 < ?y" by simp
  then have c2: "2 \<le> \<lceil>?y\<rceil>" by linarith
  then have mpos: "0 < ?m" by simp
  from blen_bounds[OF mpos] have lo: "2 ^ (blen ?m - 1) \<le> ?m" and hi: "?m < 2 ^ blen ?m"
    by simp_all
  from mpos have bp: "0 < blen ?m" by (rule blen_pos)
  have ex: "expo a = - int (blen ?m)" using False by (simp add: expo_def)
  have m_eq: "(of_nat ?m :: rat) = of_int \<lceil>?y\<rceil> - 1"
  proof -
    from c2 have "0 \<le> \<lceil>?y\<rceil> - 1" by linarith
    then have "(of_nat ?m :: rat) = of_int (\<lceil>?y\<rceil> - 1)" by (rule of_nat_nat)
    then show ?thesis by (simp only: of_int_diff of_int_1)
  qed
  have p1: "pow2 (expo a) = 1 / 2 ^ blen ?m"
    using bp by (simp add: ex pow2_def)
  have p2: "pow2 (expo a + 1) = 1 / 2 ^ (blen ?m - 1)"
  proof (cases "blen ?m = 1")
    case True
    then show ?thesis by (simp add: ex pow2_def)
  next
    case False
    with bp have "1 < blen ?m" by simp
    then have "- int (blen ?m) + 1 < 0" "nat (int (blen ?m) - 1) = blen ?m - 1" by simp_all
    then show ?thesis by (simp add: ex pow2_def)
  qed
  from hi have "Suc ?m \<le> 2 ^ blen ?m" by (rule Suc_leI)
  then have "(of_nat (Suc ?m) :: rat) \<le> 2 ^ blen ?m"
    by (metis of_nat_le_iff of_nat_numeral of_nat_power)
  then have "of_int \<lceil>?y\<rceil> \<le> (2 :: rat) ^ blen ?m"
    by (simp only: of_nat_Suc m_eq)
  then have yhi: "?y \<le> 2 ^ blen ?m" by (meson le_of_int_ceiling order_trans)
  have "(2 :: rat) ^ (blen ?m - 1) \<le> of_nat ?m"
    using lo by (metis of_nat_le_iff of_nat_numeral of_nat_power)
  also have "\<dots> < ?y" unfolding m_eq by linarith
  finally have ylo: "2 ^ (blen ?m - 1) < ?y" .
  have l: "pow2 (expo a) \<le> a"
    unfolding p1 using yhi assms by (simp add: field_simps)
  have h: "a < pow2 (expo a + 1)"
    unfolding p2 using ylo assms by (simp add: field_simps)
  from l h show ?thesis by simp
qed

lemma whole_row_fields [simp]:
  "d_id (whole_row r) = st_id r" "d_cardId (whole_row r) = st_cardId r"
  "d_dueDate (whole_row r) = dueDate r" "d_balance (whole_row r) = of_int (balance r)"
  "d_isPaid (whole_row r) = isPaid r"
  by (simp_all add: whole_row_def)

lemma unpaid_of_embed: "unpaid_of_d cid (map whole_row tbl) = map whole_row (unpaid_of cid tbl)"
  by (induction tbl) (simp_all add: unpaid_of_d_def unpaid_of_def)

lemma insort_embed:
  "insort_key d_dueDate (whole_row x) (map whole_row xs) = map whole_row (insort_key dueDate x xs)"
  by (induction xs) simp_all

lemma sort_embed: "sort_key d_dueDate (map whole_row xs) = map whole_row (sort_key dueDate xs)"
  by (induction xs) (simp_all add: insort_embed)

lemma findMany_embed:
  "findMany_unpaid_asc_d cid (map whole_row tbl) = map whole_row (findMany_unpaid_asc cid tbl)"
  by (simp add: findMany_unpaid_asc_d_def findMany_unpaid_asc_def unpaid_of_embed sort_embed)

lemma upd_at_embed:
  "(\<And>r. g' (whole_row r) = whole_row (g r)) \<Longrightarrow>
   upd_at_d i g' (map whole_row tbl) = map whole_row (upd_at i g tbl)"
  by (induction tbl) (simp_all add: upd_at_d_def upd_at_def)

lemma pay_off_embed: "pay_off_d (whole_row r) = whole_row (pay_off r)"
  by (simp add: pay_off_d_def pay_off_def whole_row_def)

lemma pay_part_embed: "pay_part_d (of_int b) (whole_row r) = whole_row (pay_part b r)"
  by (simp add: pay_part_d_def pay_part_def whole_row_def)

lemma statement_update_embed:
  assumes "\<And>r. g' (whole_row r) = whole_row (g r)"
  shows "statement_update_d f i g' (map whole_row tbl) =
    (case statement_update f i g tbl of Inl e \<Rightarrow> Inl e | Inr t \<Rightarrow> Inr (map whole_row t))"
  using upd_at_embed[of g' g i tbl, OF assms]
  by (auto simp: statement_update_d_def statement_update_def)

lemma dsub_of_int:
  "\<bar>a - b\<bar> < 2 ^ 53 \<Longrightarrow> dsub (of_int a) (of_int b) = of_int (a - b)"
  using fl_of_int[of "a - b"] by (simp add: dsub_def)

lemma dadd_of_int:
  "\<bar>a + b\<bar> < 2 ^ 53 \<Longrightarrow> dadd (of_int a) (of_int b) = of_int (a + b)"
  using fl_of_int[of "a + b"] by (simp add: dadd_def)

text \<open>On whole amounts below \<open>2^53\<close> the loop on doubles is the loop on integers.\<close>

lemma apply_loop_embed:
  assumes "\<forall>s \<in> set snap. 0 \<le> balance s \<and> balance s < 2 ^ 53"
    and "0 \<le> rem" and "rem < 2 ^ 53"
  shows "apply_loop_d f (map whole_row snap) (of_int rem) (map whole_row tbl) =
    (fst (apply_loop f snap rem tbl), map whole_row (snd (apply_loop f snap rem tbl)))"
  using assms
proof (induction snap arbitrary: rem tbl)
  case Nil
  then show ?case by simp
next
  case (Cons st rest)
  from Cons.prems(1) have b: "0 \<le> balance st" "balance st < 2 ^ 53"
    and rest: "\<forall>s \<in> set rest. 0 \<le> balance s \<and> balance s < 2 ^ 53"
    by simp_all
  show ?case
  proof (cases "rem \<le> 0")
    case True
    then show ?thesis by simp
  next
    case pos: False
    show ?thesis
    proof (cases "balance st \<le> rem")
      case True
      have sub: "dsub (of_int rem) (of_int (balance st)) = of_int (rem - balance st)"
        using True b Cons.prems(2,3) by (intro dsub_of_int) simp
      have ih: "apply_loop_d f (map whole_row rest) (of_int (rem - balance st)) (map whole_row t) =
          (fst (apply_loop f rest (rem - balance st) t),
           map whole_row (snd (apply_loop f rest (rem - balance st) t)))" for t
        using rest True Cons.prems(3) b by (intro Cons.IH) simp_all
      show ?thesis
        using pos True
        by (simp add: statement_update_embed[of pay_off_d pay_off, OF pay_off_embed] sub ih
            split: sum.splits del: of_int_diff)
    next
      case False
      have sub: "dsub (of_int (balance st)) (of_int rem) = of_int (balance st - rem)"
        using False b pos by (intro dsub_of_int) simp
      have upd: "\<And>r. pay_part_d (of_int (balance st - rem)) (whole_row r) =
          whole_row (pay_part (balance st - rem) r)"
        by (rule pay_part_embed)
      have ih: "apply_loop_d f (map whole_row rest) (of_int 0) (map whole_row t) =
          (fst (apply_loop f rest 0 t), map whole_row (snd (apply_loop f rest 0 t)))" for t
        using rest by (intro Cons.IH) simp_all
      have ih0: "apply_loop_d f (map whole_row rest) 0 (map whole_row t) =
          (fst (apply_loop f rest 0 t), map whole_row (snd (apply_loop f rest 0 t)))" for t
        using ih[of t] by simp
      show ?thesis
        using pos False
        by (simp add: statement_update_embed[of "pay_part_d (of_int (balance st - rem))"
              "pay_part (balance st - rem)", OF upd] sub ih0 split: sum.splits
            del: of_int_diff)
    qed
  qed
qed

lemma total_embed: "total_balance_d (map whole_row tbl) = of_int (total_balance tbl)"
  by (induction tbl) (simp_all add: total_balance_d_def total_balance_def)

lemma foldl_outstanding_embed:
  assumes "\<forall>s \<in> set sts. 0 \<le> balance s" and "0 \<le> a" and "a + total_balance sts < 2 ^ 53"
  shows "foldl (\<lambda>sum st. dadd sum (num_or_zero_d (d_balance st))) (of_int a) (map whole_row sts) =
    of_int (a + total_balance sts)"
  using assms
proof (induction sts arbitrary: a)
  case Nil
  then show ?case by (simp add: total_balance_def)
next
  case (Cons s sts)
  have tot: "total_balance (s # sts) = balance s + total_balance sts"
    by (simp add: total_balance_def)
  from Cons.prems(1) have nn: "0 \<le> balance s" "0 \<le> total_balance sts"
    by (simp_all add: sum_nonneg_snapshot)
  have "num_or_zero_d (of_int (balance s)) = (of_int (balance s) :: rat)"
    by (simp add: num_or_zero_d_def)
  moreover have "dadd (of_int a) (of_int (balance s)) = of_int (a + balance s)"
    using nn Cons.prems(2,3) tot by (intro dadd_of_int) simp
  ultimately have step: "dadd (of_int a) (num_or_zero_d (d_balance (whole_row s))) =
      of_int (a + balance s)"
    by (simp only: whole_row_fields)
  have "foldl (\<lambda>sum st. dadd sum (num_or_zero_d (d_balance st)))
      (of_int (a + balance s)) (map whole_row sts) = of_int (a + balance s + total_balance sts)"
    using Cons.prems nn tot by (intro Cons.IH) simp_all
  with step show ?case
    by (simp only: list.map foldl_Cons tot add.assoc)
qed

lemma outstanding_embed:
  assumes "\<forall>s \<in> set sts. 0 \<le> balance s" and "total_balance sts < 2 ^ 53"
  shows "outstanding_of_d (map whole_row sts) = of_int (total_balance sts)"
  using foldl_outstanding_embed[OF assms(1), of 0] assms(2)
  by (simp add: outstanding_of_d_def)

text \<open>Whatever the amounts, the loop on doubles writes no negative balance.\<close>

lemma upd_at_d_list_all:
  "list_all P tbl \<Longrightarrow> (\<And>r. r \<in> set tbl \<Longrightarrow> P (g r)) \<Longrightarrow> list_all P (upd_at_d i g tbl)"
  by (induction tbl) (auto simp: upd_at_d_def)

lemma apply_loop_d_nonneg:
  "list_all (\<lambda>r. 0 \<le> d_balance r) tbl \<Longrightarrow>
   list_all (\<lambda>r. 0 \<le> d_balance r) (snd (apply_loop_d f snap rem tbl))"
proof (induction snap arbitrary: rem tbl)
  case Nil
  then show ?case by simp
next
  case (Cons st rest)
  have full: "list_all (\<lambda>r. 0 \<le> d_balance r) (upd_at_d (d_id st) pay_off_d tbl)"
    using Cons.prems by (rule upd_at_d_list_all) (simp add: pay_off_d_def)
  have part: "list_all (\<lambda>r. 0 \<le> d_balance r)
      (upd_at_d (d_id st) (pay_part_d (dsub (d_balance st) rem)) tbl)" if "rem < d_balance st"
    using Cons.prems
  proof (rule upd_at_d_list_all)
    fix r
    from that have "0 \<le> fl (d_balance st - rem)" by (intro fl_nonneg) simp
    then show "0 \<le> d_balance (pay_part_d (dsub (d_balance st) rem) r)"
      by (simp add: pay_part_d_def dsub_def)
  qed
  show ?case
    using Cons.prems Cons.IH[OF full] Cons.IH[OF part]
    by (auto simp: statement_update_d_def split: sum.splits)
qed

lemma member_le_total:
  "\<forall>s \<in> set sts. 0 \<le> balance s \<Longrightarrow> s \<in> set sts \<Longrightarrow> balance s \<le> total_balance sts"
proof (induction sts)
  case Nil
  then show ?case by simp
next
  case (Cons x sts)
  from Cons.prems(1) have "0 \<le> balance x" "0 \<le> total_balance sts"
    by (simp_all add: sum_nonneg_snapshot)
  moreover have "total_balance (x # sts) = balance x + total_balance sts"
    by (simp add: total_balance_def)
  ultimately show ?case using Cons by (cases "s = x") auto
qed

lemma unpaid_total_nonneg:
  "nonneg_balances tbl \<Longrightarrow> 0 \<le> total_balance (unpaid_of cid tbl)"
  by (rule sum_nonneg_snapshot) (auto simp: unpaid_of_def nonneg_balances_def list_all_iff)

lemma whole_sums: "dadd 0 200 = 200" "dsub 500 200 = 300"
  by code_simp+

lemma fl_tenths:
  "fl (1 / 10) = 3602879701896397 / 36028797018963968"
  "fl (2 / 10) = 3602879701896397 / 18014398509481984"
  "fl (3 / 10) = 5404319552844595 / 18014398509481984"
  "fl (6 / 10) = 5404319552844595 / 9007199254740992"
  by code_simp+

lemma tenths_sums:
  "dadd 0 (3602879701896397 / 36028797018963968) = 3602879701896397 / 36028797018963968"
  "dadd (3602879701896397 / 36028797018963968) (3602879701896397 / 18014398509481984) =
     1351079888211149 / 4503599627370496"
  "dadd (1351079888211149 / 4503599627370496) (5404319552844595 / 18014398509481984) =
     1351079888211149 / 2251799813685248"
  by code_simp+

lemma tenths_differences:
  "dsub (5404319552844595 / 9007199254740992) (3602879701896397 / 36028797018963968) = 1 / 2"
  "dsub (1 / 2) (3602879701896397 / 18014398509481984) = 5404319552844595 / 18014398509481984"
  "dsub (5404319552844595 / 18014398509481984) (5404319552844595 / 18014398509481984) = 0"
  "dsub (1351079888211149 / 2251799813685248) 0 = 1351079888211149 / 2251799813685248"
  by code_simp+

subsection \<open>Overpayment is discarded\<close>

text \<open>
  Claim C3, as amended.  The statement part of a SUCCESS resolution is taken in double
  arithmetic.  When the amount \<open>A\<close> and the balances are whole numbers, \<open>A\<close> and the sum
  of the card's unpaid balances non-negative and below \<open>2^53\<close> (statement ids unique,
  no balance negative), the arithmetic is exact: the balances drop in total by
  \<open>min A outstanding\<close>, no balance becomes negative, and the outstanding balance
  afterwards is the old one minus that reduction, so what is left of \<open>A\<close> is dropped.
  For arbitrary amounts and non-negative balances the loop still writes no negative
  balance.  The reduction is not \<open>min A outstanding\<close> in general: with balances 0.1, 0.2
  and 0.3 a payment of 0.6 passes the validation of the creation handler (the rounded
  sum is above it) and clears all three statements, which is more than 0.6.
\<close>

theorem overpay_discarded_whole_amounts:
  assumes "pk_statements tbl" and "nonneg_balances tbl"
    and "0 \<le> A" and "A < 2 ^ 53"
    and "total_balance (unpaid_of cid tbl) < 2 ^ 53"
  shows "fst (apply_payment_d no_faults cid (of_int A) (map whole_row tbl)) = Inr () \<and>
    total_balance_d (map whole_row tbl) -
      total_balance_d (snd (apply_payment_d no_faults cid (of_int A) (map whole_row tbl))) =
      min (of_int A) (outstanding_of_d (findMany_unpaid_asc_d cid (map whole_row tbl))) \<and>
    list_all (\<lambda>r. 0 \<le> d_balance r)
      (snd (apply_payment_d no_faults cid (of_int A) (map whole_row tbl))) \<and>
    outstanding_of_d (findMany_unpaid_asc_d cid
        (snd (apply_payment_d no_faults cid (of_int A) (map whole_row tbl)))) =
      outstanding_of_d (findMany_unpaid_asc_d cid (map whole_row tbl)) -
      min (of_int A) (outstanding_of_d (findMany_unpaid_asc_d cid (map whole_row tbl))) \<and>
    (list_all (\<lambda>r. 0 \<le> d_balance r) dtbl \<longrightarrow>
       list_all (\<lambda>r. 0 \<le> d_balance r) (snd (apply_payment_d f cid' amount dtbl)))"
proof -
  let ?snap = "findMany_unpaid_asc cid tbl"
  let ?O = "total_balance (unpaid_of cid tbl)"
  obtain t where loop: "apply_loop no_faults ?snap A tbl = (Inr (), t)"
    using snapshot_no_faults_success[where cid = cid and rem = A and tbl = tbl]
    by (cases "apply_loop no_faults ?snap A tbl") auto
  have cov: "covers tbl ?snap" using assms(1) by (rule snapshot_covers)
  note facts = snapshot_facts[OF assms(2), of cid]
  from facts have nn: "\<forall>s \<in> set ?snap. 0 \<le> balance s" by simp
  have tot: "total_balance ?snap = ?O" by (rule snapshot_total)
  have bound: "\<forall>s \<in> set ?snap. 0 \<le> balance s \<and> balance s < 2 ^ 53"
  proof
    fix s assume s: "s \<in> set ?snap"
    with nn have "balance s \<le> total_balance ?snap" by (intro member_le_total) auto
    with assms(5) tot nn s show "0 \<le> balance s \<and> balance s < 2 ^ 53" by auto
  qed
  have run: "apply_payment_d no_faults cid (of_int A) (map whole_row tbl) =
      (Inr (), map whole_row t)"
    using apply_loop_embed[OF bound assms(3,4), where f = no_faults and tbl = tbl] loop
    by (simp add: apply_payment_d_def findMany_embed)
  have red: "total_balance tbl - total_balance t = min A ?O"
    using apply_loop_total[OF loop cov nn assms(3)] tot by simp
  have red_unpaid: "total_balance (unpaid_of cid tbl) - total_balance (unpaid_of cid t) = min A ?O"
    using apply_loop_unpaid_total[OF loop cov facts assms(3)] tot by simp
  have nn_t: "nonneg_balances t" using loop assms(2) by (rule apply_loop_nonneg)
  have O_nn: "0 \<le> ?O" using assms(2) by (rule unpaid_total_nonneg)
  have out0: "outstanding_of_d (findMany_unpaid_asc_d cid (map whole_row tbl)) = of_int ?O"
    using outstanding_embed[OF nn] tot assms(5) by (simp add: findMany_embed)
  have out1: "outstanding_of_d (findMany_unpaid_asc_d cid (map whole_row t)) =
      of_int (total_balance (unpaid_of cid t))"
  proof -
    note f1 = snapshot_facts[OF nn_t, of cid]
    from f1 have n1: "\<forall>s \<in> set (findMany_unpaid_asc cid t). 0 \<le> balance s" by simp
    have "total_balance (findMany_unpaid_asc cid t) = total_balance (unpaid_of cid t)"
      by (rule snapshot_total)
    moreover have "total_balance (unpaid_of cid t) < 2 ^ 53"
      using red_unpaid assms(3,5) O_nn by (simp add: min_def split: if_splits)
    ultimately show ?thesis
      using outstanding_embed[OF n1] by (simp add: findMany_embed)
  qed
  have mn: "min (of_int A) (of_int ?O :: rat) = of_int (min A ?O)"
    by (simp add: min_def)
  have c1: "fst (apply_payment_d no_faults cid (of_int A) (map whole_row tbl)) = Inr ()"
    by (simp add: run)
  have c2: "total_balance_d (map whole_row tbl) -
      total_balance_d (snd (apply_payment_d no_faults cid (of_int A) (map whole_row tbl))) =
      min (of_int A) (outstanding_of_d (findMany_unpaid_asc_d cid (map whole_row tbl)))"
    unfolding run out0 mn snd_conv total_embed using red by (simp flip: of_int_diff)
  have c3: "list_all (\<lambda>r. 0 \<le> d_balance r)
      (snd (apply_payment_d no_faults cid (of_int A) (map whole_row tbl)))"
    using nn_t by (simp add: run nonneg_balances_def list_all_iff)
  have c4: "outstanding_of_d (findMany_unpaid_asc_d cid
        (snd (apply_payment_d no_faults cid (of_int A) (map whole_row tbl)))) =
      outstanding_of_d (findMany_unpaid_asc_d cid (map whole_row tbl)) -
      min (of_int A) (outstanding_of_d (findMany_unpaid_asc_d cid (map whole_row tbl)))"
    unfolding run out0 mn snd_conv out1 using red_unpaid
    by (simp flip: of_int_diff) 
  have c5: "list_all (\<lambda>r. 0 \<le> d_balance r) dtbl \<longrightarrow>
       list_all (\<lambda>r. 0 \<le> d_balance r) (snd (apply_payment_d f cid' amount dtbl))"
    by (simp add: apply_payment_d_def apply_loop_d_nonneg)
  from c1 c2 c3 c4 c5 show ?thesis by blast
qed

theorem overpay_discarded_whole_amounts_witness:
  "pk_statements (statements overpay_state) \<and> nonneg_balances (statements overpay_state) \<and>
   (0 :: int) \<le> 500 \<and> (500 :: int) < 2 ^ 53 \<and>
   total_balance (unpaid_of (Some 1) (statements overpay_state)) < 2 ^ 53 \<and>
   outstanding_of_d (findMany_unpaid_asc_d (Some 1) (map whole_row (statements overpay_state)))
     = 200 \<and>
   total_balance_d (map whole_row (statements overpay_state)) -
     total_balance_d (snd (apply_payment_d no_faults (Some 1) 500
       (map whole_row (statements overpay_state)))) = 200 \<and>
   apply_payment_d no_faults (Some 1) 500 (map whole_row (statements overpay_state)) =
     (Inr (), [\<lparr>d_id = 1, d_cardId = 1, d_dueDate = 10, d_balance = 0, d_isPaid = True\<rparr>])"
proof -
  have pk: "pk_statements (statements overpay_state)"
    by (simp add: pk_statements_def example_defs)
  have nn: "nonneg_balances (statements overpay_state)"
    by (simp add: nonneg_balances_def example_defs)
  have a: "(0 :: int) \<le> 500" "(500 :: int) < 2 ^ 53" by simp_all
  have b: "total_balance (unpaid_of (Some 1) (statements overpay_state)) < 2 ^ 53"
    by (simp add: total_balance_def unpaid_of_def example_defs)
  have out: "outstanding_of_d (findMany_unpaid_asc_d (Some 1)
      (map whole_row (statements overpay_state))) = 200"
    by (simp add: outstanding_of_d_def findMany_unpaid_asc_d_def unpaid_of_d_def
        num_or_zero_d_def whole_row_def whole_sums example_defs)
  have run: "apply_payment_d no_faults (Some 1) 500 (map whole_row (statements overpay_state)) =
     (Inr (), [\<lparr>d_id = 1, d_cardId = 1, d_dueDate = 10, d_balance = 0, d_isPaid = True\<rparr>])"
    by (simp add: apply_payment_d_def findMany_unpaid_asc_d_def unpaid_of_d_def
        statement_update_d_def upd_at_d_def pay_off_d_def pay_part_d_def no_faults_def
        whole_row_def whole_sums example_defs)
  from overpay_discarded_whole_amounts[OF pk nn a b]
  have "total_balance_d (map whole_row (statements overpay_state)) -
      total_balance_d (snd (apply_payment_d no_faults (Some 1) (of_int 500)
        (map whole_row (statements overpay_state)))) =
      min (of_int 500) (outstanding_of_d (findMany_unpaid_asc_d (Some 1)
        (map whole_row (statements overpay_state))))"
    by blast
  then have red: "total_balance_d (map whole_row (statements overpay_state)) -
     total_balance_d (snd (apply_payment_d no_faults (Some 1) 500
       (map whole_row (statements overpay_state)))) = 200"
    by (simp add: out)
  from pk nn a b out red run show ?thesis by blast
qed

theorem fractional_overpay_counterexample:
  "outstanding_of_d (findMany_unpaid_asc_d (Some 1) tenths_table) =
     1351079888211149 / 2251799813685248 \<and>
   \<not> fl (6 / 10) > outstanding_of_d (findMany_unpaid_asc_d (Some 1) tenths_table) \<and>
   apply_payment_d no_faults (Some 1) (fl (6 / 10)) tenths_table =
     (Inr (), map pay_off_d tenths_table) \<and>
   total_balance_d tenths_table -
     total_balance_d (snd (apply_payment_d no_faults (Some 1) (fl (6 / 10)) tenths_table)) \<noteq>
     min (fl (6 / 10)) (outstanding_of_d (findMany_unpaid_asc_d (Some 1) tenths_table)) \<and>
   dsub (outstanding_of_d (findMany_unpaid_asc_d (Some 1) tenths_table))
     (outstanding_of_d (findMany_unpaid_asc_d (Some 1)
        (snd (apply_payment_d no_faults (Some 1) (fl (6 / 10)) tenths_table)))) \<noteq>
     min (fl (6 / 10)) (outstanding_of_d (findMany_unpaid_asc_d (Some 1) tenths_table))"
proof -
  have out: "outstanding_of_d (findMany_unpaid_asc_d (Some 1) tenths_table) =
     1351079888211149 / 2251799813685248"
    unfolding tenths_table_def fl_tenths
    by (simp add: outstanding_of_d_def findMany_unpaid_asc_d_def unpaid_of_d_def
        num_or_zero_d_def tenths_sums)
  have run: "apply_payment_d no_faults (Some 1) (fl (6 / 10)) tenths_table =
     (Inr (), map pay_off_d tenths_table)"
    unfolding tenths_table_def fl_tenths
    by (simp add: apply_payment_d_def findMany_unpaid_asc_d_def unpaid_of_d_def
        statement_update_d_def upd_at_d_def pay_off_d_def pay_part_d_def no_faults_def
        tenths_differences)
  have after: "outstanding_of_d (findMany_unpaid_asc_d (Some 1) (map pay_off_d tenths_table)) = 0"
    unfolding tenths_table_def
    by (simp add: outstanding_of_d_def findMany_unpaid_asc_d_def unpaid_of_d_def pay_off_d_def)
  have tot: "total_balance_d tenths_table - total_balance_d (map pay_off_d tenths_table) =
     21617278211378381 / 36028797018963968"
    unfolding tenths_table_def fl_tenths
    by (simp add: total_balance_d_def pay_off_d_def)
  have c2: "\<not> fl (6 / 10) > outstanding_of_d (findMany_unpaid_asc_d (Some 1) tenths_table)"
    unfolding out unfolding fl_tenths by simp
  have c4: "total_balance_d tenths_table -
     total_balance_d (snd (apply_payment_d no_faults (Some 1) (fl (6 / 10)) tenths_table)) \<noteq>
     min (fl (6 / 10)) (outstanding_of_d (findMany_unpaid_asc_d (Some 1) tenths_table))"
    unfolding run snd_conv tot out unfolding fl_tenths by simp
  have c5: "dsub (outstanding_of_d (findMany_unpaid_asc_d (Some 1) tenths_table))
     (outstanding_of_d (findMany_unpaid_asc_d (Some 1)
        (snd (apply_payment_d no_faults (Some 1) (fl (6 / 10)) tenths_table)))) \<noteq>
     min (fl (6 / 10)) (outstanding_of_d (findMany_unpaid_asc_d (Some 1) tenths_table))"
    unfolding run snd_conv after out unfolding fl_tenths tenths_differences by simp
  from out c2 run c4 c5 show ?thesis by blast
qed

section \<open>Further properties of resolution\<close>

lemma createPayment_statements:
  "statements (snd (createPayment env r s)) = statements s"
  by (auto simp: createPayment_def create_new_def payment_create_def Let_def
      split: option.splits sum.splits)

lemma processPayment_paid_invariant:
  assumes "pk_statements (statements s)" and "paid_invariant (statements s)"
  shows "paid_invariant (statements (snd (processPayment f pid st lf uid amt ext s)))"
proof (cases "st = SUCCESS")
  case False
  with assms(2) show ?thesis by (simp add: processPayment_statements_other)
next
  case True
  obtain res s' where run: "processPayment f pid SUCCESS lf uid amt ext s = (res, s')"
    by (cases "processPayment f pid SUCCESS lf uid amt ext s")
  show ?thesis
  proof (cases res)
    case (Inl e)
    with run have "processPayment f pid SUCCESS lf uid amt ext s = (Inl e, s')" by simp
    from processPayment_Inl[OF this] run assms(2) True show ?thesis by simp
  next
    case (Inr u)
    with run have ok: "fst (processPayment f pid SUCCESS lf uid amt ext s) = Inr ()" by simp
    have "find (\<lambda>p. pay_id p = pid) (payments s) \<noteq> None"
    proof
      assume "find (\<lambda>p. pay_id p = pid) (payments s) = None"
      then have "fst (processPayment f pid SUCCESS lf uid amt ext s) = Inl RecordNotFound"
        by (rule processPayment_missing)
      with ok show False by simp
    qed
    then obtain p where fd: "find (\<lambda>p. pay_id p = pid) (payments s) = Some p" by blast
    let ?snap = "findMany_unpaid_asc (pay_cardId p) (statements s)"
    obtain r t where loop: "apply_loop f ?snap amt (statements s) = (r, t)"
      by (cases "apply_loop f ?snap amt (statements s)")
    from processPayment_SUCCESS(1)[OF fd loop, where lf = lf and uid = uid and ext = ext] ok
    have "r = Inr ()" by (cases r) simp_all
    with loop have loop': "apply_loop f ?snap amt (statements s) = (Inr (), t)" by simp
    have "paid_invariant t"
      using loop' snapshot_covers[OF assms(1)] snapshot_unpaid assms(2)
      by (rule apply_loop_paid_invariant)
    with processPayment_SUCCESS(2)[OF fd loop ok] True show ?thesis by simp
  qed
qed

subsection \<open>Paid statements have balance zero\<close>

text \<open>
  Claim C8.  If every paid statement has balance 0, this still holds after
  \<^verbatim>\<open>processPayment\<close> (with any status, and whatever storage faults occur), after the
  webhook, after the creation handler and after the deferred timer task.  The row
  written for a statement paid in full has \<open>isPaid\<close> and balance 0; the row written
  for a partial payment keeps the flag it had.  Statement ids are unique (primary key).
\<close>

theorem paid_invariant_preserved:
  assumes "pk_statements (statements s)" and "paid_invariant (statements s)"
  shows "paid_invariant (statements (snd (processPayment f pid st lf uid amount ext s))) \<and>
    paid_invariant (statements (snd (webhook f body s))) \<and>
    paid_invariant (statements (snd (createPayment env r s))) \<and>
    paid_invariant (statements (run_timer f tk s)) \<and>
    isPaid (pay_off x) \<and> balance (pay_off x) = 0 \<and> isPaid (pay_part b x) = isPaid x"
proof (intro conjI)
  show "isPaid (pay_off x)" "balance (pay_off x) = 0" "isPaid (pay_part b x) = isPaid x"
    by (simp_all add: pay_off_def pay_part_def)
  show "paid_invariant (statements (snd (processPayment f pid st lf uid amount ext s)))"
    using assms by (rule processPayment_paid_invariant)
  show "paid_invariant (statements (snd (webhook f body s)))"
    using assms
    by (auto simp: webhook_def processPayment_paid_invariant split: option.splits)
  show "paid_invariant (statements (snd (createPayment env r s)))"
    using assms(2) by (simp add: createPayment_statements)
  have "statements (run_timer f tk s) =
      statements (snd (processPayment f (task_paymentId tk) (task_status tk) (task_last4 tk)
        (task_userId tk) (task_amount tk) None s))"
    by (simp add: run_timer_def split: prod.splits sum.splits)
  then show "paid_invariant (statements (run_timer f tk s))"
    using assms by (simp add: processPayment_paid_invariant)
qed

theorem paid_invariant_preserved_witness:
  "pk_statements (statements fifo_state) \<and> paid_invariant (statements fifo_state) \<and>
   paid_invariant (statements (snd (webhook no_faults success_hook fifo_state))) \<and>
   statements (snd (webhook no_faults success_hook fifo_state)) =
     [feb_statement\<lparr>balance := 100\<rparr>, jan_statement\<lparr>balance := 0, isPaid := True\<rparr>]"
proof -
  have pk: "pk_statements (statements fifo_state)"
    by (simp add: pk_statements_def example_defs)
  have inv: "paid_invariant (statements fifo_state)"
    by (simp add: paid_invariant_def example_defs)
  have tbl: "statements (snd (webhook no_faults success_hook fifo_state)) =
     [feb_statement\<lparr>balance := 100\<rparr>, jan_statement\<lparr>balance := 0, isPaid := True\<rparr>]"
    by (simp add: webhook_def parse_webhook_status_def card_of_payment_def run_defs example_defs)
  from paid_invariant_preserved[OF pk inv, where f = no_faults and body = success_hook]
  have "paid_invariant (statements (snd (webhook no_faults success_hook fifo_state)))" by blast
  with pk inv tbl show ?thesis by blast
qed

subsection \<open>Webhook on a payment without card\<close>

text \<open>
  Claim C10.  When the payment named in a webhook request has a null \<open>cardId\<close>, the
  handler fails while reading \<^verbatim>\<open>payment.card.last4\<close> (a TypeError; a request that
  does not pass the schema fails before that) and the state is the one before: no
  status update and no statement application.
\<close>

theorem webhook_null_card_errors:
  assumes "find (\<lambda>p. pay_id p = wh_paymentId body) (payments s) = Some p"
    and "pay_cardId p = None"
  shows "webhook f body s =
    (Inl (if parse_webhook_status (wh_status body) = None then SchemaValidationError
          else TypeError), s)"
  using assms by (simp add: webhook_def card_of_payment_def split: option.splits)

theorem webhook_null_card_errors_witness:
  "find (\<lambda>p. pay_id p = ''rzp1'') (payments gateway_state) = Some gateway_payment \<and>
   pay_cardId gateway_payment = None \<and>
   webhook no_faults \<lparr>wh_paymentId = ''rzp1'', wh_status = ''SUCCESS'', wh_externalId = None\<rparr>
     gateway_state = (Inl TypeError, gateway_state)"
proof -
  have fd: "find (\<lambda>p. pay_id p =
      wh_paymentId \<lparr>wh_paymentId = ''rzp1'', wh_status = ''SUCCESS'', wh_externalId = None\<rparr>)
      (payments gateway_state) = Some gateway_payment"
    by (simp add: example_defs)
  have nc: "pay_cardId gateway_payment = None" by (simp add: example_defs)
  from webhook_null_card_errors[OF fd nc, of no_faults] fd nc
  show ?thesis by (simp add: parse_webhook_status_def)
qed


lemma processPayment_outcome:
  "(\<exists>e. fst (processPayment f pid st lf uid amt ext s) = Inl e) \<and>
     payments (snd (processPayment f pid st lf uid amt ext s)) = payments s \<and>
     statements (snd (processPayment f pid st lf uid amt ext s)) = statements s
   \<or>
   fst (processPayment f pid st lf uid amt ext s) = Inr () \<and>
     fst (processPayment no_faults pid st lf uid amt ext s) = Inr () \<and>
     payments (snd (processPayment f pid st lf uid amt ext s)) =
       payments (snd (processPayment no_faults pid st lf uid amt ext s)) \<and>
     statements (snd (processPayment f pid st lf uid amt ext s)) =
       statements (snd (processPayment no_faults pid st lf uid amt ext s))"
proof -
  obtain res s' where run: "processPayment f pid st lf uid amt ext s = (res, s')"
    by (cases "processPayment f pid st lf uid amt ext s")
  show ?thesis
  proof (cases res)
    case (Inl e)
    with run have "processPayment f pid st lf uid amt ext s = (Inl e, s')" by simp
    from processPayment_Inl[OF this] run Inl show ?thesis by simp
  next
    case (Inr u)
    with run have ok: "fst (processPayment f pid st lf uid amt ext s) = Inr ()" by simp
    have "find (\<lambda>p. pay_id p = pid) (payments s) \<noteq> None"
    proof
      assume "find (\<lambda>p. pay_id p = pid) (payments s) = None"
      then have "fst (processPayment f pid st lf uid amt ext s) = Inl RecordNotFound"
        by (rule processPayment_missing)
      with ok show False by simp
    qed
    then obtain p where fd: "find (\<lambda>p. pay_id p = pid) (payments s) = Some p" by blast
    have nf: "\<not> notify_fails no_faults" by (simp add: no_faults_def)
    show ?thesis
    proof (cases "st = SUCCESS")
      case True
      let ?snap = "findMany_unpaid_asc (pay_cardId p) (statements s)"
      obtain r t where loop: "apply_loop f ?snap amt (statements s) = (r, t)"
        by (cases "apply_loop f ?snap amt (statements s)")
      from processPayment_SUCCESS(1)[OF fd loop, where lf = lf and uid = uid and ext = ext]
        ok True
      have "r = Inr ()" by (cases r) simp_all
      with loop have "apply_loop f ?snap amt (statements s) = (Inr (), t)" by simp
      then have "apply_loop no_faults ?snap amt (statements s) = (Inr (), t)"
        by (rule apply_loop_fault_free)
      with processPayment_no_faults_SUCCESS[OF fd, where lf = lf and uid = uid and amt = amt
          and ext = ext]
        processPayment_SUCCESS(2)[OF fd loop, where lf = lf and uid = uid and ext = ext]
        ok True
      show ?thesis by simp
    next
      case False
      from processPayment_other[OF fd False, where f = f and lf = lf and uid = uid
          and amt = amt and ext = ext]
        processPayment_other[OF fd False, where f = no_faults and lf = lf and uid = uid
          and amt = amt and ext = ext] ok nf
      show ?thesis by simp
    qed
  qed
qed

subsection \<open>A storage failure aborts the transaction\<close>

text \<open>
  Claim C6.  If a statement write fails while a SUCCESS webhook is processed, the
  webhook returns that error and the payment and statement tables are the ones before
  the request.  More generally every run of \<^verbatim>\<open>processPayment\<close> ends either with an
  error and both tables as before, or without error and both tables equal to those of
  the run without faults: nothing in between is left behind.
\<close>

theorem storage_failure_aborts_unit:
  assumes "find (\<lambda>p. pay_id p = wh_paymentId body) (payments s) = Some p"
    and "card_of_payment s p = Some c"
    and "wh_status body = ''SUCCESS''"
    and "fst (apply_loop f (findMany_unpaid_asc (pay_cardId p) (statements s)) (pay_amount p)
           (statements s)) = Inl e"
  shows "fst (webhook f body s) = Inl e \<and>
    payments (snd (webhook f body s)) = payments s \<and>
    statements (snd (webhook f body s)) = statements s \<and>
    ((\<exists>e'. fst (processPayment f' pid st lf uid amt ext s0) = Inl e') \<and>
       payments (snd (processPayment f' pid st lf uid amt ext s0)) = payments s0 \<and>
       statements (snd (processPayment f' pid st lf uid amt ext s0)) = statements s0
     \<or>
     fst (processPayment f' pid st lf uid amt ext s0) = Inr () \<and>
       fst (processPayment no_faults pid st lf uid amt ext s0) = Inr () \<and>
       payments (snd (processPayment f' pid st lf uid amt ext s0)) =
         payments (snd (processPayment no_faults pid st lf uid amt ext s0)) \<and>
       statements (snd (processPayment f' pid st lf uid amt ext s0)) =
         statements (snd (processPayment no_faults pid st lf uid amt ext s0)))"
proof -
  let ?run = "processPayment f (wh_paymentId body) SUCCESS (last4 c) (pay_userId p)
      (pay_amount p) (wh_externalId body) s"
  have hook: "webhook f body s = ?run"
    using assms(1,2,3) by (simp add: webhook_def parse_webhook_status_def)
  obtain r t where loop: "apply_loop f (findMany_unpaid_asc (pay_cardId p) (statements s))
      (pay_amount p) (statements s) = (r, t)"
    by (cases "apply_loop f (findMany_unpaid_asc (pay_cardId p) (statements s))
      (pay_amount p) (statements s)")
  with assms(4) have r: "r = Inl e" by simp
  from processPayment_SUCCESS(1)[OF assms(1) loop, where lf = "last4 c"
      and uid = "pay_userId p" and ext = "wh_externalId body"] r
  have err: "fst ?run = Inl e" by simp
  then have "?run = (Inl e, snd ?run)" by (metis prod.collapse)
  from processPayment_Inl[OF this]
  have "payments (snd ?run) = payments s \<and> statements (snd ?run) = statements s" .
  with err hook processPayment_outcome[of f' pid st lf uid amt ext s0] show ?thesis
    by simp
qed

theorem storage_failure_aborts_unit_witness:
  "find (\<lambda>p. pay_id p = wh_paymentId success_hook) (payments fifo_state) =
     Some (pending_payment 700) \<and>
   card_of_payment fifo_state (pending_payment 700) = Some card_A \<and>
   wh_status success_hook = ''SUCCESS'' \<and>
   apply_loop feb_write_fails (findMany_unpaid_asc (Some 1) (statements fifo_state)) 700
     (statements fifo_state) =
     (Inl StorageError, [feb_statement, jan_statement\<lparr>isPaid := True, balance := 0\<rparr>]) \<and>
   fst (webhook feb_write_fails success_hook fifo_state) = Inl StorageError \<and>
   payments (snd (webhook feb_write_fails success_hook fifo_state)) = [pending_payment 700] \<and>
   statements (snd (webhook feb_write_fails success_hook fifo_state)) =
     [feb_statement, jan_statement]"
proof -
  have fd: "find (\<lambda>p. pay_id p = wh_paymentId success_hook) (payments fifo_state) =
     Some (pending_payment 700)"
    by (simp add: example_defs)
  have cd: "card_of_payment fifo_state (pending_payment 700) = Some card_A"
    by (simp add: card_of_payment_def example_defs)
  have st: "wh_status success_hook = ''SUCCESS''" by (simp add: example_defs)
  have loop: "apply_loop feb_write_fails (findMany_unpaid_asc (Some 1) (statements fifo_state))
      700 (statements fifo_state) =
     (Inl StorageError, [feb_statement, jan_statement\<lparr>isPaid := True, balance := 0\<rparr>])"
    by (simp add: findMany_unpaid_asc_def unpaid_of_def statement_update_def upd_at_def
        pay_off_def pay_part_def example_defs)
  have vals: "pay_cardId (pending_payment 700) = Some 1" "pay_amount (pending_payment 700) = 700"
    "payments fifo_state = [pending_payment 700]"
    "statements fifo_state = [feb_statement, jan_statement]"
    by (simp_all add: example_defs)
  have fail: "fst (apply_loop feb_write_fails
      (findMany_unpaid_asc (pay_cardId (pending_payment 700)) (statements fifo_state))
      (pay_amount (pending_payment 700)) (statements fifo_state)) = Inl StorageError"
    using loop by (simp add: vals(1,2))
  from storage_failure_aborts_unit[OF fd cd st fail]
  have "fst (webhook feb_write_fails success_hook fifo_state) = Inl StorageError \<and>
    payments (snd (webhook feb_write_fails success_hook fifo_state)) = payments fifo_state \<and>
    statements (snd (webhook feb_write_fails success_hook fifo_state)) = statements fifo_state"
    by blast
  with fd cd st loop vals(3,4) show ?thesis by simp
qed


lemma apply_loop_cong:
  "stmt_update_fails f = stmt_update_fails f' \<Longrightarrow>
   apply_loop f snap rem tbl = apply_loop f' snap rem tbl"
  by (induction snap arbitrary: rem tbl) (simp_all add: statement_update_def)

lemma find_resolve_row:
  "find (\<lambda>q. pay_id q = pid) tbl = Some p \<Longrightarrow>
   find (\<lambda>q. pay_id q = pid) (resolve_row pid st ext tbl) = Some (set_resolution st ext p)"
  by (induction tbl) (auto simp: resolve_row_def)

text \<open>The transactional tables after a SUCCESS resolution, whatever the faults.\<close>

lemma processPayment_SUCCESS_tables:
  assumes "find (\<lambda>p. pay_id p = pid) (payments s) = Some p"
    and "apply_loop f (findMany_unpaid_asc (pay_cardId p) (statements s)) amt (statements s) = (r, t)"
  shows "payments (snd (processPayment f pid SUCCESS lf uid amt ext s)) =
           (if fst (processPayment f pid SUCCESS lf uid amt ext s) = Inr ()
            then resolve_row pid SUCCESS ext (payments s) else payments s)"
    and "statements (snd (processPayment f pid SUCCESS lf uid amt ext s)) =
           (if fst (processPayment f pid SUCCESS lf uid amt ext s) = Inr ()
            then t else statements s)"
proof -
  let ?run = "processPayment f pid SUCCESS lf uid amt ext s"
  have "payments (snd ?run) = payments s \<and> statements (snd ?run) = statements s"
    if "fst ?run \<noteq> Inr ()"
  proof -
    from that obtain e where "fst ?run = Inl e" by (cases "fst ?run") auto
    then have "?run = (Inl e, snd ?run)" by (metis prod.collapse)
    then show ?thesis by (rule processPayment_Inl)
  qed
  with processPayment_SUCCESS(2)[OF assms, where lf = lf and uid = uid and ext = ext]
  show "payments (snd ?run) = (if fst ?run = Inr ()
            then resolve_row pid SUCCESS ext (payments s) else payments s)"
    and "statements (snd ?run) = (if fst ?run = Inr () then t else statements s)"
    by auto
qed

lemma processPayment_audit_log:
  assumes "find (\<lambda>p. pay_id p = pid) (payments s) = Some p"
    and "fst (processPayment f pid SUCCESS lf uid amt ext s) = Inr ()"
  shows "activities (snd (processPayment f pid SUCCESS lf uid amt ext s)) =
           (if activity_create_fails f then activities s
            else activities s @ [payment_activity uid amt ''bank'' SUCCESS])"
    and "logs (snd (processPayment f pid SUCCESS lf uid amt ext s)) =
           (if activity_create_fails f
            then logs s @ [LogActivityFailed uid, LogPaymentProcessed pid SUCCESS]
            else logs s @ [LogPaymentProcessed pid SUCCESS])"
  using assms
  by (auto simp: processPayment_def processPayment_body_def payment_update_cases Let_def
      createPaymentNotification_def logActivity_def payment_activity_def rollback_def
      split: sum.splits prod.splits if_splits)

subsection \<open>A failing audit write changes nothing else, a failing notification does\<close>

text \<open>
  Claim C9, as amended.  Whether the activity write of \<^verbatim>\<open>logActivity\<close> fails or not, a
  SUCCESS resolution returns the same result and leaves the same payment and statement
  tables; with the activity write as the only fault the resolution succeeds, the payment
  is SUCCESS, the statements are as in the run without faults, and the failure is found
  in the log only.  The side effects are nevertheless awaited inside the transaction
  callback: when the notification helper throws, the resolution returns an error and
  payments and statements are rolled back; with a throwing notification as the only
  fault that error is the notification's.  The counterexample is such a run.
\<close>

theorem audit_failure_isolated_notification_not:
  assumes "find (\<lambda>p. pay_id p = pid) (payments s) = Some p"
  shows "fst (processPayment (f\<lparr>activity_create_fails := True\<rparr>) pid SUCCESS lf uid amount ext s) =
      fst (processPayment (f\<lparr>activity_create_fails := False\<rparr>) pid SUCCESS lf uid amount ext s) \<and>
    payments (snd (processPayment (f\<lparr>activity_create_fails := True\<rparr>) pid SUCCESS lf uid amount ext s)) =
      payments (snd (processPayment (f\<lparr>activity_create_fails := False\<rparr>) pid SUCCESS lf uid amount ext s)) \<and>
    statements (snd (processPayment (f\<lparr>activity_create_fails := True\<rparr>) pid SUCCESS lf uid amount ext s)) =
      statements (snd (processPayment (f\<lparr>activity_create_fails := False\<rparr>) pid SUCCESS lf uid amount ext s)) \<and>
    fst (processPayment (no_faults\<lparr>activity_create_fails := True\<rparr>) pid SUCCESS lf uid amount ext s) = Inr () \<and>
    find (\<lambda>q. pay_id q = pid)
      (payments (snd (processPayment (no_faults\<lparr>activity_create_fails := True\<rparr>) pid SUCCESS lf uid
         amount ext s))) = Some (set_resolution SUCCESS ext p) \<and>
    statements (snd (processPayment (no_faults\<lparr>activity_create_fails := True\<rparr>) pid SUCCESS lf uid
         amount ext s)) =
      statements (snd (processPayment no_faults pid SUCCESS lf uid amount ext s)) \<and>
    logs (snd (processPayment (no_faults\<lparr>activity_create_fails := True\<rparr>) pid SUCCESS lf uid
         amount ext s)) = logs s @ [LogActivityFailed uid, LogPaymentProcessed pid SUCCESS] \<and>
    (notify_fails g \<longrightarrow>
       (\<exists>e. fst (processPayment g pid st lf uid amount ext s) = Inl e) \<and>
       payments (snd (processPayment g pid st lf uid amount ext s)) = payments s \<and>
       statements (snd (processPayment g pid st lf uid amount ext s)) = statements s) \<and>
    fst (processPayment (no_faults\<lparr>notify_fails := True\<rparr>) pid st lf uid amount ext s) =
      Inl NotificationError"
proof -
  let ?snap = "findMany_unpaid_asc (pay_cardId p) (statements s)"
  let ?fT = "f\<lparr>activity_create_fails := True\<rparr>" and ?fF = "f\<lparr>activity_create_fails := False\<rparr>"
  let ?nT = "no_faults\<lparr>activity_create_fails := True\<rparr>"
  let ?nN = "no_faults\<lparr>notify_fails := True\<rparr>"
  obtain r t where loop: "apply_loop f ?snap amount (statements s) = (r, t)"
    by (cases "apply_loop f ?snap amount (statements s)")
  have loopT: "apply_loop ?fT ?snap amount (statements s) = (r, t)"
    using loop apply_loop_cong[of ?fT f] by simp
  have loopF: "apply_loop ?fF ?snap amount (statements s) = (r, t)"
    using loop apply_loop_cong[of ?fF f] by simp
  have same: "fst (processPayment ?fT pid SUCCESS lf uid amount ext s) =
      fst (processPayment ?fF pid SUCCESS lf uid amount ext s)"
    using processPayment_SUCCESS(1)[OF assms loopT, where lf = lf and uid = uid and ext = ext]
      processPayment_SUCCESS(1)[OF assms loopF, where lf = lf and uid = uid and ext = ext]
    by simp
  have tabs: "payments (snd (processPayment ?fT pid SUCCESS lf uid amount ext s)) =
      payments (snd (processPayment ?fF pid SUCCESS lf uid amount ext s))"
    "statements (snd (processPayment ?fT pid SUCCESS lf uid amount ext s)) =
      statements (snd (processPayment ?fF pid SUCCESS lf uid amount ext s))"
    using processPayment_SUCCESS_tables[OF assms loopT, where lf = lf and uid = uid and ext = ext]
      processPayment_SUCCESS_tables[OF assms loopF, where lf = lf and uid = uid and ext = ext]
      same
    by simp_all
  obtain t0 where loop0: "apply_loop no_faults ?snap amount (statements s) = (Inr (), t0)"
    using processPayment_no_faults_SUCCESS(2)[OF assms] by blast
  have loopN: "apply_loop ?nT ?snap amount (statements s) = (Inr (), t0)"
    using loop0 apply_loop_cong[of ?nT no_faults] by simp
  have okN: "fst (processPayment ?nT pid SUCCESS lf uid amount ext s) = Inr ()"
    using processPayment_SUCCESS(1)[OF assms loopN, where lf = lf and uid = uid and ext = ext]
    by (simp add: no_faults_def)
  have ok0: "fst (processPayment no_faults pid SUCCESS lf uid amount ext s) = Inr ()"
    by (rule processPayment_no_faults_SUCCESS(1)[OF assms])
  have "payments (snd (processPayment ?nT pid SUCCESS lf uid amount ext s)) =
      resolve_row pid SUCCESS ext (payments s)"
    using processPayment_SUCCESS_tables(1)[OF assms loopN, where lf = lf and uid = uid
        and ext = ext] okN by simp
  then have row: "find (\<lambda>q. pay_id q = pid)
      (payments (snd (processPayment ?nT pid SUCCESS lf uid amount ext s))) =
      Some (set_resolution SUCCESS ext p)"
    using find_resolve_row[OF assms] by simp
  have sts: "statements (snd (processPayment ?nT pid SUCCESS lf uid amount ext s)) =
      statements (snd (processPayment no_faults pid SUCCESS lf uid amount ext s))"
    using processPayment_SUCCESS_tables(2)[OF assms loopN, where lf = lf and uid = uid
        and ext = ext]
      processPayment_SUCCESS_tables(2)[OF assms loop0, where lf = lf and uid = uid
        and ext = ext] okN ok0
    by simp
  have lg: "logs (snd (processPayment ?nT pid SUCCESS lf uid amount ext s)) =
      logs s @ [LogActivityFailed uid, LogPaymentProcessed pid SUCCESS]"
    using processPayment_audit_log(2)[OF assms okN] by simp
  have ntf: "notify_fails g \<longrightarrow>
       (\<exists>e. fst (processPayment g pid st lf uid amount ext s) = Inl e) \<and>
       payments (snd (processPayment g pid st lf uid amount ext s)) = payments s \<and>
       statements (snd (processPayment g pid st lf uid amount ext s)) = statements s"
  proof
    assume nf: "notify_fails g"
    have err: "\<exists>e. fst (processPayment g pid st lf uid amount ext s) = Inl e"
    proof (cases "st = SUCCESS")
      case True
      obtain r' t' where l': "apply_loop g ?snap amount (statements s) = (r', t')"
        by (cases "apply_loop g ?snap amount (statements s)")
      from processPayment_SUCCESS(1)[OF assms l', where lf = lf and uid = uid and ext = ext]
        nf True
      show ?thesis by (cases r') simp_all
    next
      case False
      from processPayment_other(1)[OF assms False, where f = g and lf = lf and uid = uid
          and amt = amount and ext = ext] nf
      show ?thesis by simp
    qed
    then obtain e where "fst (processPayment g pid st lf uid amount ext s) = Inl e" ..
    then have "processPayment g pid st lf uid amount ext s =
        (Inl e, snd (processPayment g pid st lf uid amount ext s))"
      by (metis prod.collapse)
    from processPayment_Inl[OF this] err
    show "(\<exists>e. fst (processPayment g pid st lf uid amount ext s) = Inl e) \<and>
       payments (snd (processPayment g pid st lf uid amount ext s)) = payments s \<and>
       statements (snd (processPayment g pid st lf uid amount ext s)) = statements s"
      by simp
  qed
  have only: "fst (processPayment ?nN pid st lf uid amount ext s) = Inl NotificationError"
  proof (cases "st = SUCCESS")
    case True
    have "apply_loop ?nN ?snap amount (statements s) = (Inr (), t0)"
      using loop0 apply_loop_cong[of ?nN no_faults] by simp
    from processPayment_SUCCESS(1)[OF assms this, where lf = lf and uid = uid and ext = ext]
      True
    show ?thesis by simp
  next
    case False
    from processPayment_other(1)[OF assms False, where f = ?nN and lf = lf and uid = uid
        and amt = amount and ext = ext]
    show ?thesis by simp
  qed
  from same tabs okN row sts lg ntf only show ?thesis by blast
qed

theorem audit_failure_isolated_notification_not_witness:
  "find (\<lambda>p. pay_id p = ''p1'') (payments fifo_state) = Some (pending_payment 700) \<and>
   fst (processPayment (no_faults\<lparr>activity_create_fails := True\<rparr>) ''p1'' SUCCESS ''4242'' 7 700
     None fifo_state) = Inr () \<and>
   find (\<lambda>q. pay_id q = ''p1'')
     (payments (snd (processPayment (no_faults\<lparr>activity_create_fails := True\<rparr>) ''p1'' SUCCESS
        ''4242'' 7 700 None fifo_state))) = Some ((pending_payment 700)\<lparr>pay_status := SUCCESS\<rparr>) \<and>
   statements (snd (processPayment (no_faults\<lparr>activity_create_fails := True\<rparr>) ''p1'' SUCCESS
        ''4242'' 7 700 None fifo_state)) =
     [feb_statement\<lparr>balance := 100\<rparr>, jan_statement\<lparr>balance := 0, isPaid := True\<rparr>] \<and>
   activities (snd (processPayment (no_faults\<lparr>activity_create_fails := True\<rparr>) ''p1'' SUCCESS
        ''4242'' 7 700 None fifo_state)) = []"
proof -
  have fd: "find (\<lambda>p. pay_id p = ''p1'') (payments fifo_state) = Some (pending_payment 700)"
    by (simp add: example_defs)
  have sr: "set_resolution SUCCESS None (pending_payment 700) =
      (pending_payment 700)\<lparr>pay_status := SUCCESS\<rparr>"
    by (simp add: set_resolution_def pending_payment_def)
  have st0: "statements (snd (processPayment no_faults ''p1'' SUCCESS ''4242'' 7 700 None fifo_state)) =
      [feb_statement\<lparr>balance := 100\<rparr>, jan_statement\<lparr>balance := 0, isPaid := True\<rparr>]"
    by (simp add: run_defs example_defs)
  have act: "activities (snd (processPayment (no_faults\<lparr>activity_create_fails := True\<rparr>) ''p1''
      SUCCESS ''4242'' 7 700 None fifo_state)) = []"
    by (simp add: run_defs example_defs)
  note T = audit_failure_isolated_notification_not[OF fd, where f = no_faults and lf = "''4242''" and uid = 7
      and amount = 700 and ext = None]
  from T have a: "fst (processPayment (no_faults\<lparr>activity_create_fails := True\<rparr>) ''p1''
      SUCCESS ''4242'' 7 700 None fifo_state) = Inr ()"
    by blast
  from T have "find (\<lambda>q. pay_id q = ''p1'')
     (payments (snd (processPayment (no_faults\<lparr>activity_create_fails := True\<rparr>) ''p1'' SUCCESS
        ''4242'' 7 700 None fifo_state))) = Some (set_resolution SUCCESS None (pending_payment 700))"
    by blast
  with sr have b: "find (\<lambda>q. pay_id q = ''p1'')
     (payments (snd (processPayment (no_faults\<lparr>activity_create_fails := True\<rparr>) ''p1'' SUCCESS
        ''4242'' 7 700 None fifo_state))) = Some ((pending_payment 700)\<lparr>pay_status := SUCCESS\<rparr>)"
    by simp
  from T have "statements (snd (processPayment (no_faults\<lparr>activity_create_fails := True\<rparr>)
      ''p1'' SUCCESS ''4242'' 7 700 None fifo_state)) =
      statements (snd (processPayment no_faults ''p1'' SUCCESS ''4242'' 7 700 None fifo_state))"
    by blast
  with st0 have c: "statements (snd (processPayment (no_faults\<lparr>activity_create_fails := True\<rparr>)
      ''p1'' SUCCESS ''4242'' 7 700 None fifo_state)) =
      [feb_statement\<lparr>balance := 100\<rparr>, jan_statement\<lparr>balance := 0, isPaid := True\<rparr>]"
    by simp
  from fd a b c act show ?thesis by blast
qed

theorem notification_failure_rolls_back_counterexample:
  "fst (apply_loop notification_fails (findMany_unpaid_asc (Some 1) (statements fifo_state)) 700
     (statements fifo_state)) = Inr () \<and>
   fst (processPayment notification_fails ''p1'' SUCCESS ''4242'' 7 700 None fifo_state) =
     Inl NotificationError \<and>
   payments (snd (processPayment notification_fails ''p1'' SUCCESS ''4242'' 7 700 None
     fifo_state)) = [pending_payment 700] \<and>
   pay_status (pending_payment 700) = PENDING \<and>
   statements (snd (processPayment notification_fails ''p1'' SUCCESS ''4242'' 7 700 None
     fifo_state)) = [feb_statement, jan_statement]"
  by (simp add: run_defs example_defs notification_fails_def)

lemma processPayment_cards:
  "cards (snd (processPayment f pid st lf uid amt ext s)) = cards s"
  by (auto simp: processPayment_def processPayment_body_def payment_update_cases Let_def
      createPaymentNotification_def logActivity_def rollback_def
      split: sum.splits prod.splits option.splits)

lemma resolve_row_twice:
  "resolve_row pid st ext (resolve_row pid st ext tbl) = resolve_row pid st ext tbl"
  by (induction tbl) (auto simp: resolve_row_def set_resolution_def split: option.splits)

lemma webhook_success_run:
  assumes "find (\<lambda>p. pay_id p = wh_paymentId body) (payments s) = Some p"
    and "card_of_payment s p = Some c" and "wh_status body = ''SUCCESS''"
  shows "webhook f body s =
     processPayment f (wh_paymentId body) SUCCESS (last4 c) (pay_userId p) (pay_amount p)
       (wh_externalId body) s"
  using assms by (simp add: webhook_def parse_webhook_status_def)

lemma webhook_failed_statements:
  "wh_status body = ''FAILED'' \<Longrightarrow> statements (snd (webhook f body s)) = statements s"
  by (simp add: webhook_def parse_webhook_status_def processPayment_statements_other
      split: option.splits)

subsection \<open>Resolution is applied at every delivery\<close>

text \<open>
  Claim C1, as amended.  The resolution path does not look at the status a payment
  already has.  When a SUCCESS webhook is delivered twice, the first delivery leaves the
  payment in SUCCESS; the second one is accepted as well, leaves status and external id
  of every payment as they are, and runs the statement loop once more, with the full
  amount, over the statements that are still unpaid, so that balances can change a
  second time (the counterexample).  A FAILED delivery never changes a statement.
\<close>

theorem duplicate_delivery_runs_again:
  assumes "find (\<lambda>p. pay_id p = wh_paymentId body) (payments s) = Some p"
    and "card_of_payment s p = Some c" and "wh_status body = ''SUCCESS''"
  shows "fst (webhook no_faults body s) = Inr () \<and>
    map_option pay_status
      (find (\<lambda>q. pay_id q = wh_paymentId body) (payments (snd (webhook no_faults body s)))) =
      Some SUCCESS \<and>
    fst (webhook no_faults body (snd (webhook no_faults body s))) = Inr () \<and>
    map pay_status (payments (snd (webhook no_faults body (snd (webhook no_faults body s))))) =
      map pay_status (payments (snd (webhook no_faults body s))) \<and>
    map externalId (payments (snd (webhook no_faults body (snd (webhook no_faults body s))))) =
      map externalId (payments (snd (webhook no_faults body s))) \<and>
    apply_loop no_faults
      (findMany_unpaid_asc (pay_cardId p) (statements (snd (webhook no_faults body s))))
      (pay_amount p) (statements (snd (webhook no_faults body s))) =
      (Inr (), statements (snd (webhook no_faults body (snd (webhook no_faults body s))))) \<and>
    (wh_status body' = ''FAILED'' \<longrightarrow> statements (snd (webhook f body' s')) = statements s')"
proof -
  let ?pid = "wh_paymentId body" and ?ext = "wh_externalId body"
  let ?p' = "set_resolution SUCCESS ?ext p"
  let ?s1 = "snd (webhook no_faults body s)"
  let ?s2 = "snd (webhook no_faults body ?s1)"
  have h1: "webhook no_faults body s =
      processPayment no_faults ?pid SUCCESS (last4 c) (pay_userId p) (pay_amount p) ?ext s"
    using assms by (rule webhook_success_run)
  have ok1: "fst (webhook no_faults body s) = Inr ()"
    unfolding h1 by (rule processPayment_no_faults_SUCCESS(1)[OF assms(1)])
  have pay1: "payments ?s1 = resolve_row ?pid SUCCESS ?ext (payments s)"
    unfolding h1 by (rule processPayment_no_faults_SUCCESS(3)[OF assms(1)])
  have fd1: "find (\<lambda>q. pay_id q = ?pid) (payments ?s1) = Some ?p'"
    unfolding pay1 using assms(1) by (rule find_resolve_row)
  then have st1: "map_option pay_status (find (\<lambda>q. pay_id q = ?pid) (payments ?s1)) =
      Some SUCCESS"
    by simp
  have "cards ?s1 = cards s" unfolding h1 by (rule processPayment_cards)
  with assms(2) have card1: "card_of_payment ?s1 ?p' = Some c"
    by (simp add: card_of_payment_def split: option.splits)
  have h2: "webhook no_faults body ?s1 =
      processPayment no_faults ?pid SUCCESS (last4 c) (pay_userId ?p') (pay_amount ?p') ?ext ?s1"
    using fd1 card1 assms(3) by (rule webhook_success_run)
  have ok2: "fst (webhook no_faults body ?s1) = Inr ()"
    unfolding h2 by (rule processPayment_no_faults_SUCCESS(1)[OF fd1])
  have "payments ?s2 = resolve_row ?pid SUCCESS ?ext (payments ?s1)"
    unfolding h2 by (rule processPayment_no_faults_SUCCESS(3)[OF fd1])
  then have pay2: "payments ?s2 = payments ?s1"
    by (simp add: pay1 resolve_row_twice)
  have loop: "apply_loop no_faults (findMany_unpaid_asc (pay_cardId p) (statements ?s1))
      (pay_amount p) (statements ?s1) = (Inr (), statements ?s2)"
    using processPayment_no_faults_SUCCESS(2)[OF fd1, where lf = "last4 c"
        and uid = "pay_userId ?p'" and amt = "pay_amount ?p'" and ext = ?ext, folded h2]
    by simp
  have failed: "wh_status body' = ''FAILED'' \<longrightarrow>
      statements (snd (webhook f body' s')) = statements s'"
    by (simp add: webhook_failed_statements)
  from ok1 st1 ok2 pay2 loop failed show ?thesis by simp
qed

theorem duplicate_delivery_runs_again_witness:
  "find (\<lambda>p. pay_id p = wh_paymentId success_hook) (payments dup_state) =
     Some (pending_payment 200) \<and>
   card_of_payment dup_state (pending_payment 200) = Some card_A \<and>
   wh_status success_hook = ''SUCCESS'' \<and>
   statements (snd (webhook no_faults success_hook dup_state)) =
     [feb_statement, jan_statement\<lparr>balance := 100\<rparr>] \<and>
   statements (snd (webhook no_faults success_hook
       (snd (webhook no_faults success_hook dup_state)))) =
     [feb_statement\<lparr>balance := 400\<rparr>, jan_statement\<lparr>balance := 0, isPaid := True\<rparr>]"
proof -
  have fd: "find (\<lambda>p. pay_id p = wh_paymentId success_hook) (payments dup_state) =
     Some (pending_payment 200)"
    by (simp add: example_defs)
  have cd: "card_of_payment dup_state (pending_payment 200) = Some card_A"
    by (simp add: card_of_payment_def example_defs)
  have st: "wh_status success_hook = ''SUCCESS''" by (simp add: example_defs)
  have vals: "pay_cardId (pending_payment 200) = Some 1" "pay_amount (pending_payment 200) = 200"
    by (simp_all add: example_defs)
  have s1: "statements (snd (webhook no_faults success_hook dup_state)) =
     [feb_statement, jan_statement\<lparr>balance := 100\<rparr>]"
    by (simp add: webhook_def parse_webhook_status_def card_of_payment_def run_defs example_defs)
  have again: "apply_loop no_faults
      (findMany_unpaid_asc (Some 1) [feb_statement, jan_statement\<lparr>balance := 100\<rparr>]) 200
      [feb_statement, jan_statement\<lparr>balance := 100\<rparr>] =
     (Inr (), [feb_statement\<lparr>balance := 400\<rparr>, jan_statement\<lparr>balance := 0, isPaid := True\<rparr>])"
    by (simp add: findMany_unpaid_asc_def unpaid_of_def statement_update_def upd_at_def
        pay_off_def pay_part_def no_faults_def example_defs)
  from duplicate_delivery_runs_again[OF fd cd st]
  have "apply_loop no_faults
      (findMany_unpaid_asc (pay_cardId (pending_payment 200))
         (statements (snd (webhook no_faults success_hook dup_state))))
      (pay_amount (pending_payment 200))
      (statements (snd (webhook no_faults success_hook dup_state))) =
      (Inr (), statements (snd (webhook no_faults success_hook
         (snd (webhook no_faults success_hook dup_state)))))"
    by blast
  then have s2: "statements (snd (webhook no_faults success_hook
       (snd (webhook no_faults success_hook dup_state)))) =
     [feb_statement\<lparr>balance := 400\<rparr>, jan_statement\<lparr>balance := 0, isPaid := True\<rparr>]"
    unfolding vals s1 again by simp
  from fd cd st s1 s2 show ?thesis by blast
qed

theorem duplicate_webhook_counterexample:
  "fst (webhook no_faults success_hook dup_state) = Inr () \<and>
   map pay_status (payments (snd (webhook no_faults success_hook dup_state))) = [SUCCESS] \<and>
   statements (snd (webhook no_faults success_hook dup_state)) =
     [feb_statement, jan_statement\<lparr>balance := 100\<rparr>] \<and>
   fst (webhook no_faults success_hook (snd (webhook no_faults success_hook dup_state))) =
     Inr () \<and>
   statements (snd (webhook no_faults success_hook
       (snd (webhook no_faults success_hook dup_state)))) =
     [feb_statement\<lparr>balance := 400\<rparr>, jan_statement\<lparr>balance := 0, isPaid := True\<rparr>] \<and>
   statements (snd (webhook no_faults success_hook
       (snd (webhook no_faults success_hook dup_state)))) \<noteq>
     statements (snd (webhook no_faults success_hook dup_state))"
proof -
  have first: "webhook no_faults success_hook dup_state =
     (Inr (), \<lparr>cards = [card_A],
        statements = [feb_statement, jan_statement\<lparr>balance := 100\<rparr>],
        payments = [(pending_payment 200)\<lparr>pay_status := SUCCESS\<rparr>],
        notifications = [\<lparr>ntf_userId = 7, ntf_amount = 200, ntf_last4 = ''4242'',
          ntf_outcome = SUCCESS\<rparr>],
        activities = [payment_activity 7 200 ''bank'' SUCCESS], timers = [],
        logs = [LogPaymentProcessed ''p1'' SUCCESS]\<rparr>)"
    by (simp add: webhook_def parse_webhook_status_def card_of_payment_def run_defs example_defs)
  have second: "statements (snd (webhook no_faults success_hook
      \<lparr>cards = [card_A],
        statements = [feb_statement, jan_statement\<lparr>balance := 100\<rparr>],
        payments = [(pending_payment 200)\<lparr>pay_status := SUCCESS\<rparr>],
        notifications = [\<lparr>ntf_userId = 7, ntf_amount = 200, ntf_last4 = ''4242'',
          ntf_outcome = SUCCESS\<rparr>],
        activities = [payment_activity 7 200 ''bank'' SUCCESS], timers = [],
        logs = [LogPaymentProcessed ''p1'' SUCCESS]\<rparr>)) =
     [feb_statement\<lparr>balance := 400\<rparr>, jan_statement\<lparr>balance := 0, isPaid := True\<rparr>]"
    "fst (webhook no_faults success_hook
      \<lparr>cards = [card_A],
        statements = [feb_statement, jan_statement\<lparr>balance := 100\<rparr>],
        payments = [(pending_payment 200)\<lparr>pay_status := SUCCESS\<rparr>],
        notifications = [\<lparr>ntf_userId = 7, ntf_amount = 200, ntf_last4 = ''4242'',
          ntf_outcome = SUCCESS\<rparr>],
        activities = [payment_activity 7 200 ''bank'' SUCCESS], timers = [],
        logs = [LogPaymentProcessed ''p1'' SUCCESS]\<rparr>) = Inr ()"
    by (simp_all add: webhook_def parse_webhook_status_def card_of_payment_def run_defs
        example_defs)
  have ne: "[feb_statement\<lparr>balance := 400\<rparr>, jan_statement\<lparr>balance := 0, isPaid := True\<rparr>] \<noteq>
     [feb_statement, jan_statement\<lparr>balance := 100\<rparr>]"
    by (simp add: example_defs)
  show ?thesis
    unfolding first using second ne by (simp add: pending_payment_def)
qed

section \<open>Creation\<close>

lemma normalizeStatus_PENDING: "normalizeStatus PENDING = ''pending''"
  by code_simp

lemma normalizeStatus_SUCCESS: "normalizeStatus SUCCESS = ''success''"
  by code_simp

lemma create_new_fresh:
  assumes "gen_id env \<notin> pay_id ` set (payments s)"
  shows "fst (create_new env r c out s) =
      Inr \<lparr>http_code = 201, res_paymentId = gen_id env, res_amount = req_amount r,
           res_method = req_method r, res_status = ''pending'', res_newBalance = out,
           res_timestamp = now env\<rparr>"
    and "payments (snd (create_new env r c out s)) = payments s @ [new_payment env r]"
    and "statements (snd (create_new env r c out s)) = statements s"
    and "timers (snd (create_new env r c out s)) = timers s @
           [\<lparr>task_paymentId = gen_id env,
             task_status = (if rnd_success env then SUCCESS else FAILED),
             task_last4 = last4 c, task_userId = req_userId r, task_amount = req_amount r\<rparr>]"
proof -
  have "\<not> (\<exists>q \<in> set (payments s). pay_id q = gen_id env)" using assms by force
  then show "fst (create_new env r c out s) =
      Inr \<lparr>http_code = 201, res_paymentId = gen_id env, res_amount = req_amount r,
           res_method = req_method r, res_status = ''pending'', res_newBalance = out,
           res_timestamp = now env\<rparr>"
    and "payments (snd (create_new env r c out s)) = payments s @ [new_payment env r]"
    and "statements (snd (create_new env r c out s)) = statements s"
    and "timers (snd (create_new env r c out s)) = timers s @
           [\<lparr>task_paymentId = gen_id env,
             task_status = (if rnd_success env then SUCCESS else FAILED),
             task_last4 = last4 c, task_userId = req_userId r, task_amount = req_amount r\<rparr>]"
    by (simp_all add: create_new_def payment_create_def new_payment_def
        normalizeStatus_PENDING)
qed

text \<open>Past validation the handler either answers from the lookup or creates.\<close>

lemma createPayment_validated:
  assumes "createPaymentSchema_ok r"
    and "find_owned_card s (req_cardId r) (req_userId r) = Some c"
    and "card_status c = ACTIVE"
    and "req_amount r \<le> outstandingBalance s (req_cardId r)"
  shows "idempotent_hit env r s = Some existing \<Longrightarrow>
      createPayment env r s =
        (Inr (existing_response existing (freshOutstanding s (req_cardId r))), s)"
    and "idempotent_hit env r s = None \<Longrightarrow>
      fst (createPayment env r s) =
        fst (create_new env r c (outstandingBalance s (req_cardId r)) s) \<and>
      payments (snd (createPayment env r s)) =
        payments (snd (create_new env r c (outstandingBalance s (req_cardId r)) s)) \<and>
      statements (snd (createPayment env r s)) = statements s \<and>
      timers (snd (createPayment env r s)) =
        timers (snd (create_new env r c (outstandingBalance s (req_cardId r)) s))"
  using assms
  by (auto simp: createPayment_def idempotent_hit_def Let_def create_new_def payment_create_def
      split: option.splits sum.splits)


subsection \<open>Creation answers with a pending payment\<close>

text \<open>
  Claim C7.  When validation passes and the idempotency lookup returns no payment, the
  creation handler inserts one payment with status PENDING and answers 201 with status
  \<open>pending\<close> and the outstanding balance computed before the insert, which is the sum of
  the unpaid balances and is the same after the call; the statements are untouched and
  the resolution is only queued as a timer task.
\<close>

theorem creation_returns_pending:
  assumes "createPaymentSchema_ok r"
    and "find_owned_card s (req_cardId r) (req_userId r) = Some c"
    and "card_status c = ACTIVE"
    and "req_amount r \<le> outstandingBalance s (req_cardId r)"
    and "idempotent_hit env r s = None"
    and "gen_id env \<notin> pay_id ` set (payments s)"
  shows "fst (createPayment env r s) =
      Inr \<lparr>http_code = 201, res_paymentId = gen_id env, res_amount = req_amount r,
           res_method = req_method r, res_status = ''pending'',
           res_newBalance = outstandingBalance s (req_cardId r), res_timestamp = now env\<rparr> \<and>
    payments (snd (createPayment env r s)) = payments s @ [new_payment env r] \<and>
    pay_status (new_payment env r) = PENDING \<and>
    statements (snd (createPayment env r s)) = statements s \<and>
    outstandingBalance (snd (createPayment env r s)) (req_cardId r) =
      outstandingBalance s (req_cardId r) \<and>
    outstandingBalance s (req_cardId r) =
      total_balance (unpaid_of (Some (req_cardId r)) (statements s)) \<and>
    timers (snd (createPayment env r s)) = timers s @
      [\<lparr>task_paymentId = gen_id env,
        task_status = (if rnd_success env then SUCCESS else FAILED),
        task_last4 = last4 c, task_userId = req_userId r, task_amount = req_amount r\<rparr>]"
proof -
  note v = createPayment_validated(2)[OF assms(1-4), of env, OF assms(5)]
  note n = create_new_fresh[OF assms(6), of r c "outstandingBalance s (req_cardId r)"]
  have "outstandingBalance (snd (createPayment env r s)) (req_cardId r) =
      outstandingBalance s (req_cardId r)"
    using v by (simp add: outstandingBalance_def)
  moreover have "outstandingBalance s (req_cardId r) =
      total_balance (unpaid_of (Some (req_cardId r)) (statements s))"
    by (simp add: outstandingBalance_def outstanding_snapshot)
  moreover have "pay_status (new_payment env r) = PENDING" by (simp add: new_payment_def)
  ultimately show ?thesis using v n by simp
qed

theorem creation_returns_pending_witness:
  "createPaymentSchema_ok (request_of 800 None) \<and>
   find_owned_card open_state 1 7 = Some card_A \<and> card_status card_A = ACTIVE \<and>
   outstandingBalance open_state 1 = 800 \<and>
   idempotent_hit (env_p ''p1'') (request_of 800 None) open_state = None \<and>
   gen_id (env_p ''p1'') \<notin> pay_id ` set (payments open_state) \<and>
   fst (createPayment (env_p ''p1'') (request_of 800 None) open_state) =
      Inr \<lparr>http_code = 201, res_paymentId = ''p1'', res_amount = 800, res_method = ''bank'',
           res_status = ''pending'', res_newBalance = 800, res_timestamp = 5\<rparr> \<and>
   statements (snd (createPayment (env_p ''p1'') (request_of 800 None) open_state)) =
     [feb_statement, jan_statement] \<and>
   map pay_status (payments (snd (createPayment (env_p ''p1'') (request_of 800 None) open_state)))
     = [PENDING]"
proof -
  have ok: "createPaymentSchema_ok (request_of 800 None)"
    by (simp add: createPaymentSchema_ok_def request_of_def)
  have cd: "find_owned_card open_state (req_cardId (request_of 800 None))
      (req_userId (request_of 800 None)) = Some card_A"
    by (simp add: find_owned_card_def example_defs)
  have ac: "card_status card_A = ACTIVE" by (simp add: card_A_def)
  have out: "outstandingBalance open_state 1 = 800"
    by (simp add: outstandingBalance_def outstanding_of_def findMany_unpaid_asc_def unpaid_of_def
        num_or_zero_def example_defs)
  have rq: "req_cardId (request_of 800 None) = 1" "req_userId (request_of 800 None) = 7"
    "req_amount (request_of 800 None) = 800" "req_method (request_of 800 None) = ''bank''"
    by (simp_all add: request_of_def)
  have le: "req_amount (request_of 800 None) \<le>
      outstandingBalance open_state (req_cardId (request_of 800 None))"
    by (simp add: rq out)
  have nh: "idempotent_hit (env_p ''p1'') (request_of 800 None) open_state = None"
    by (simp add: idempotent_hit_def read_idempotency_key_def trim_def request_of_def)
  have fr: "gen_id (env_p ''p1'') \<notin> pay_id ` set (payments open_state)"
    by (simp add: example_defs)
  have ev: "gen_id (env_p ''p1'') = ''p1''" "now (env_p ''p1'') = 5" by (simp_all add: env_p_def)
  note T = creation_returns_pending[OF ok cd ac le nh fr]
  from T have a: "fst (createPayment (env_p ''p1'') (request_of 800 None) open_state) =
      Inr \<lparr>http_code = 201, res_paymentId = ''p1'', res_amount = 800, res_method = ''bank'',
           res_status = ''pending'', res_newBalance = 800, res_timestamp = 5\<rparr>"
    by (simp add: rq out ev)
  from T have b: "statements (snd (createPayment (env_p ''p1'') (request_of 800 None) open_state)) =
     [feb_statement, jan_statement]"
    by (simp add: open_state_def state_of_def)
  from T have c: "map pay_status (payments (snd (createPayment (env_p ''p1'')
      (request_of 800 None) open_state))) = [PENDING]"
    by (simp add: open_state_def state_of_def)
  from ok cd ac out nh fr a b c show ?thesis by (simp add: rq)
qed

subsection \<open>When creation is rejected\<close>

text \<open>
  Claim C4, as amended.  A creation request is rejected exactly when the schema check
  fails (card id not positive, amount not positive, amount above 1000000, method not
  one of bank, card, instant), or no card with that id belongs to the user, or the card
  is not ACTIVE, or the amount exceeds the outstanding balance; a rejected request
  leaves the state as it was; an amount above the outstanding balance that passes the
  other checks is a \<open>ValidationError\<close>; without unpaid statements the outstanding
  balance is 0.  The counterexample is an amount equal to an outstanding balance of
  1500000, which the schema rejects.
\<close>

theorem creation_rejected_iff:
  assumes "gen_id env \<notin> pay_id ` set (payments s)"
  shows "((\<exists>e. fst (createPayment env r s) = Inl e) \<longleftrightarrow>
      req_cardId r \<le> 0 \<or> req_amount r \<le> 0 \<or> 1000000 < req_amount r \<or>
      req_method r \<notin> {''bank'', ''card'', ''instant''} \<or>
      find_owned_card s (req_cardId r) (req_userId r) = None \<or>
      (\<exists>c. find_owned_card s (req_cardId r) (req_userId r) = Some c \<and> card_status c \<noteq> ACTIVE) \<or>
      outstandingBalance s (req_cardId r) < req_amount r) \<and>
    ((\<exists>e. fst (createPayment env r s) = Inl e) \<longrightarrow> snd (createPayment env r s) = s) \<and>
    (createPaymentSchema_ok r \<and>
       (\<exists>c. find_owned_card s (req_cardId r) (req_userId r) = Some c \<and> card_status c = ACTIVE) \<and>
       outstandingBalance s (req_cardId r) < req_amount r \<longrightarrow>
       fst (createPayment env r s) = Inl ValidationError) \<and>
    (unpaid_of (Some (req_cardId r)) (statements s) = [] \<longrightarrow>
       outstandingBalance s (req_cardId r) = 0)"
proof -
  have fresh: "\<not> (\<exists>q \<in> set (payments s). pay_id q = gen_id env)" using assms by force
  have iff: "(\<exists>e. fst (createPayment env r s) = Inl e) \<longleftrightarrow>
      req_cardId r \<le> 0 \<or> req_amount r \<le> 0 \<or> 1000000 < req_amount r \<or>
      req_method r \<notin> {''bank'', ''card'', ''instant''} \<or>
      find_owned_card s (req_cardId r) (req_userId r) = None \<or>
      (\<exists>c. find_owned_card s (req_cardId r) (req_userId r) = Some c \<and> card_status c \<noteq> ACTIVE) \<or>
      outstandingBalance s (req_cardId r) < req_amount r"
    using fresh
    by (auto simp: createPayment_def createPaymentSchema_ok_def Let_def create_new_def
        payment_create_def new_payment_def split: option.splits sum.splits)
  have same: "(\<exists>e. fst (createPayment env r s) = Inl e) \<longrightarrow> snd (createPayment env r s) = s"
    using fresh
    by (auto simp: createPayment_def Let_def create_new_def payment_create_def new_payment_def
        split: option.splits sum.splits)
  have kind: "createPaymentSchema_ok r \<and>
       (\<exists>c. find_owned_card s (req_cardId r) (req_userId r) = Some c \<and> card_status c = ACTIVE) \<and>
       outstandingBalance s (req_cardId r) < req_amount r \<longrightarrow>
       fst (createPayment env r s) = Inl ValidationError"
    by (auto simp: createPayment_def Let_def)
  have zero: "unpaid_of (Some (req_cardId r)) (statements s) = [] \<longrightarrow>
       outstandingBalance s (req_cardId r) = 0"
    by (simp add: outstandingBalance_def outstanding_of_def findMany_unpaid_asc_def)
  from iff same kind zero show ?thesis by blast
qed

theorem creation_rejected_iff_witness:
  "gen_id (env_p ''p1'') \<notin> pay_id ` set (payments open_state) \<and>
   outstandingBalance open_state 1 = 800 \<and>
   (\<exists>resp. fst (createPayment (env_p ''p1'') (request_of 800 None) open_state) = Inr resp) \<and>
   fst (createPayment (env_p ''p1'') (request_of 801 None) open_state) = Inl ValidationError \<and>
   snd (createPayment (env_p ''p1'') (request_of 801 None) open_state) = open_state"
proof -
  have fr: "gen_id (env_p ''p1'') \<notin> pay_id ` set (payments open_state)"
    by (simp add: example_defs)
  have out: "outstandingBalance open_state 1 = 800"
    by (simp add: outstandingBalance_def outstanding_of_def findMany_unpaid_asc_def unpaid_of_def
        num_or_zero_def example_defs)
  have cd: "find_owned_card open_state 1 7 = Some card_A"
    by (simp add: find_owned_card_def example_defs)
  have ac: "card_status card_A = ACTIVE" by (simp add: card_A_def)
  have rq: "req_cardId (request_of a None) = 1" "req_userId (request_of a None) = 7"
    "req_amount (request_of a None) = a" "req_method (request_of a None) = ''bank''" for a
    by (simp_all add: request_of_def)
  have ok: "createPaymentSchema_ok (request_of 801 None)"
    by (simp add: createPaymentSchema_ok_def request_of_def)
  note T800 = creation_rejected_iff[OF fr, of "request_of 800 None"]
  note T801 = creation_rejected_iff[OF fr, of "request_of 801 None"]
  have "\<not> (\<exists>e. fst (createPayment (env_p ''p1'') (request_of 800 None) open_state) = Inl e)"
    using T800 by (simp add: rq out cd ac)
  then have a: "\<exists>resp. fst (createPayment (env_p ''p1'') (request_of 800 None) open_state) = Inr resp"
    by (cases "fst (createPayment (env_p ''p1'') (request_of 800 None) open_state)") auto
  have b: "fst (createPayment (env_p ''p1'') (request_of 801 None) open_state) = Inl ValidationError"
    using T801 ok by (simp add: rq out cd ac)
  with T801 have c: "snd (createPayment (env_p ''p1'') (request_of 801 None) open_state) = open_state"
    by blast
  from fr out a b c show ?thesis by blast
qed

theorem amount_equal_rejected_counterexample:
  "outstandingBalance big_state 1 = 1500000 \<and>
   req_amount (request_of 1500000 None) = outstandingBalance big_state 1 \<and>
   0 < req_amount (request_of 1500000 None) \<and>
   find_owned_card big_state 1 7 = Some card_A \<and> card_status card_A = ACTIVE \<and>
   fst (createPayment (env_p ''p1'') (request_of 1500000 None) big_state) =
     Inl SchemaValidationError \<and>
   outstandingBalance open_state 1 = 800 \<and>
   find_owned_card open_state 1 7 = Some card_A \<and>
   fst (createPayment (env_p ''p1'') ((request_of 100 None)\<lparr>req_method := ''upi''\<rparr>) open_state) =
     Inl SchemaValidationError"
  by (simp add: createPayment_def createPaymentSchema_ok_def outstandingBalance_def
      outstanding_of_def findMany_unpaid_asc_def unpaid_of_def num_or_zero_def
      find_owned_card_def example_defs)

lemma createPayment_keys:
  "list_all (\<lambda>p. idempotencyKey p = None) (payments s) \<Longrightarrow>
   list_all (\<lambda>p. idempotencyKey p = None) (payments (snd (createPayment env r s)))"
  by (auto simp: createPayment_def Let_def create_new_def payment_create_def new_payment_def
      split: option.splits sum.splits)

lemma no_key_no_hit:
  "list_all (\<lambda>p. idempotencyKey p = None) (payments s) \<Longrightarrow> idempotent_hit env r s = None"
  by (auto simp: idempotent_hit_def find_by_idempotency_key_def find_None_iff list_all_iff
      split: option.splits sum.splits)

subsection \<open>The idempotency key is only looked up\<close>

text \<open>
  Claim C5, as amended.  For a validated request with an idempotency key: if the
  Payment model has the column and a stored payment carries the key, the handler
  answers with that payment's projection and the freshly computed outstanding balance,
  and changes nothing; otherwise it inserts a new payment, whose key is empty.  Since
  the handler never stores the key, a table without keys stays without keys and the
  lookup never finds anything there: two requests with the same key made through this
  handler create two payments, as the counterexample shows.
\<close>

theorem idempotency_is_lookup_only:
  assumes "createPaymentSchema_ok r"
    and "find_owned_card s (req_cardId r) (req_userId r) = Some c"
    and "card_status c = ACTIVE"
    and "req_amount r \<le> outstandingBalance s (req_cardId r)"
    and "read_idempotency_key (req_idempotencyKey r) = Some k"
  shows "(has_idempotency_column env \<and>
       find (\<lambda>p. idempotencyKey p = Some k) (payments s) = Some existing \<longrightarrow>
       createPayment env r s =
         (Inr (existing_response existing (freshOutstanding s (req_cardId r))), s)) \<and>
    ((\<not> has_idempotency_column env \<or>
        find (\<lambda>p. idempotencyKey p = Some k) (payments s) = None) \<and>
       gen_id env \<notin> pay_id ` set (payments s) \<longrightarrow>
       payments (snd (createPayment env r s)) = payments s @ [new_payment env r] \<and>
       idempotencyKey (new_payment env r) = None \<and>
       (\<exists>resp. fst (createPayment env r s) = Inr resp \<and> res_paymentId resp = gen_id env \<and>
          http_code resp = 201)) \<and>
    (list_all (\<lambda>p. idempotencyKey p = None) (payments s) \<longrightarrow>
       idempotent_hit env r s = None \<and>
       list_all (\<lambda>p. idempotencyKey p = None) (payments (snd (createPayment env r s))))"
proof (intro conjI impI)
  assume "has_idempotency_column env \<and>
       find (\<lambda>p. idempotencyKey p = Some k) (payments s) = Some existing"
  then have "idempotent_hit env r s = Some existing"
    using assms(5) by (simp add: idempotent_hit_def find_by_idempotency_key_def)
  then show "createPayment env r s =
         (Inr (existing_response existing (freshOutstanding s (req_cardId r))), s)"
    by (rule createPayment_validated(1)[OF assms(1-4)])
next
  assume a: "(\<not> has_idempotency_column env \<or>
        find (\<lambda>p. idempotencyKey p = Some k) (payments s) = None) \<and>
       gen_id env \<notin> pay_id ` set (payments s)"
  then have "idempotent_hit env r s = None"
    using assms(5) by (auto simp: idempotent_hit_def find_by_idempotency_key_def)
  note v = createPayment_validated(2)[OF assms(1-4) this]
  from a have "gen_id env \<notin> pay_id ` set (payments s)" by simp
  note n = create_new_fresh[OF this, of r c "outstandingBalance s (req_cardId r)"]
  from v n show "payments (snd (createPayment env r s)) = payments s @ [new_payment env r]"
    by simp
  show "idempotencyKey (new_payment env r) = None" by (simp add: new_payment_def)
  from v n show "\<exists>resp. fst (createPayment env r s) = Inr resp \<and>
      res_paymentId resp = gen_id env \<and> http_code resp = 201"
    by simp
next
  assume "list_all (\<lambda>p. idempotencyKey p = None) (payments s)"
  then show "idempotent_hit env r s = None" by (rule no_key_no_hit)
next
  assume "list_all (\<lambda>p. idempotencyKey p = None) (payments s)"
  then show "list_all (\<lambda>p. idempotencyKey p = None) (payments (snd (createPayment env r s)))"
    by (rule createPayment_keys)
qed

theorem idempotency_is_lookup_only_witness:
  "createPaymentSchema_ok (request_of 100 (Some '' k1 '')) \<and>
   find_owned_card keyed_state 1 7 = Some card_A \<and> card_status card_A = ACTIVE \<and>
   req_amount (request_of 100 (Some '' k1 '')) \<le> outstandingBalance keyed_state 1 \<and>
   read_idempotency_key (req_idempotencyKey (request_of 100 (Some '' k1 ''))) = Some ''k1'' \<and>
   has_idempotency_column (env_p ''p1'') \<and>
   find (\<lambda>p. idempotencyKey p = Some ''k1'') (payments keyed_state) = Some keyed_payment \<and>
   createPayment (env_p ''p1'') (request_of 100 (Some '' k1 '')) keyed_state =
     (Inr \<lparr>http_code = 200, res_paymentId = ''p0'', res_amount = 100, res_method = ''bank'',
           res_status = ''success'', res_newBalance = 800, res_timestamp = 2\<rparr>, keyed_state)"
proof -
  let ?r = "request_of 100 (Some '' k1 '')"
  have ok: "createPaymentSchema_ok ?r"
    by (simp add: createPaymentSchema_ok_def request_of_def)
  have rq: "req_cardId ?r = 1" "req_userId ?r = 7" "req_amount ?r = 100"
    by (simp_all add: request_of_def)
  have cd: "find_owned_card keyed_state (req_cardId ?r) (req_userId ?r) = Some card_A"
    by (simp add: find_owned_card_def example_defs)
  have ac: "card_status card_A = ACTIVE" by (simp add: card_A_def)
  have out: "outstandingBalance keyed_state 1 = 800"
    by (simp add: outstandingBalance_def outstanding_of_def findMany_unpaid_asc_def unpaid_of_def
        num_or_zero_def example_defs)
  have le: "req_amount ?r \<le> outstandingBalance keyed_state (req_cardId ?r)"
    by (simp add: rq out)
  have key: "read_idempotency_key (req_idempotencyKey ?r) = Some ''k1''"
    by (simp add: read_idempotency_key_def trim_def is_space_def request_of_def)
  have col: "has_idempotency_column (env_p ''p1'')" by (simp add: env_p_def)
  have fd: "find (\<lambda>p. idempotencyKey p = Some ''k1'') (payments keyed_state) = Some keyed_payment"
    by (simp add: example_defs)
  have fresh: "freshOutstanding keyed_state 1 = 800"
    by (simp add: freshOutstanding_def outstanding_of_def unpaid_of_def num_or_zero_def
        example_defs)
  have resp: "existing_response keyed_payment 800 =
      \<lparr>http_code = 200, res_paymentId = ''p0'', res_amount = 100, res_method = ''bank'',
           res_status = ''success'', res_newBalance = 800, res_timestamp = 2\<rparr>"
    by (simp add: existing_response_def keyed_payment_def normalizeStatus_SUCCESS)
  from idempotency_is_lookup_only[OF ok cd ac le key, of "env_p ''p1''" keyed_payment] col fd
  have "createPayment (env_p ''p1'') ?r keyed_state =
      (Inr (existing_response keyed_payment (freshOutstanding keyed_state (req_cardId ?r))),
       keyed_state)"
    by blast
  then have run: "createPayment (env_p ''p1'') ?r keyed_state =
     (Inr \<lparr>http_code = 200, res_paymentId = ''p0'', res_amount = 100, res_method = ''bank'',
           res_status = ''success'', res_newBalance = 800, res_timestamp = 2\<rparr>, keyed_state)"
    by (simp add: rq fresh resp)
  from ok cd ac le key col fd run show ?thesis by (simp add: rq)
qed

theorem same_key_two_payments_counterexample:
  "fst (createPayment (env_p ''p1'') (request_of 100 (Some ''k1'')) open_state) =
     Inr \<lparr>http_code = 201, res_paymentId = ''p1'', res_amount = 100, res_method = ''bank'',
          res_status = ''pending'', res_newBalance = 800, res_timestamp = 5\<rparr> \<and>
   fst (createPayment (env_p ''p2'') (request_of 100 (Some ''k1''))
          (snd (createPayment (env_p ''p1'') (request_of 100 (Some ''k1'')) open_state))) =
     Inr \<lparr>http_code = 201, res_paymentId = ''p2'', res_amount = 100, res_method = ''bank'',
          res_status = ''pending'', res_newBalance = 800, res_timestamp = 5\<rparr> \<and>
   map pay_id (payments (snd (createPayment (env_p ''p2'') (request_of 100 (Some ''k1''))
          (snd (createPayment (env_p ''p1'') (request_of 100 (Some ''k1'')) open_state))))) =
     [''p1'', ''p2'']"
proof -
  have first: "createPayment (env_p ''p1'') (request_of 100 (Some ''k1'')) open_state =
     (Inr \<lparr>http_code = 201, res_paymentId = ''p1'', res_amount = 100, res_method = ''bank'',
          res_status = ''pending'', res_newBalance = 800, res_timestamp = 5\<rparr>,
      open_state\<lparr>payments := [new_payment (env_p ''p1'') (request_of 100 (Some ''k1''))],
        timers := [\<lparr>task_paymentId = ''p1'', task_status = SUCCESS, task_last4 = ''4242'',
          task_userId = 7, task_amount = 100\<rparr>],
        logs := [LogPaymentCreated ''p1'']\<rparr>)"
    by (simp add: createPayment_def createPaymentSchema_ok_def outstandingBalance_def
        outstanding_of_def findMany_unpaid_asc_def unpaid_of_def num_or_zero_def
        find_owned_card_def read_idempotency_key_def trim_def is_space_def
        find_by_idempotency_key_def create_new_def payment_create_def new_payment_def
        normalizeStatus_PENDING example_defs)
  have second: "createPayment (env_p ''p2'') (request_of 100 (Some ''k1''))
      (open_state\<lparr>payments := [new_payment (env_p ''p1'') (request_of 100 (Some ''k1''))],
        timers := [\<lparr>task_paymentId = ''p1'', task_status = SUCCESS, task_last4 = ''4242'',
          task_userId = 7, task_amount = 100\<rparr>],
        logs := [LogPaymentCreated ''p1'']\<rparr>) =
     (Inr \<lparr>http_code = 201, res_paymentId = ''p2'', res_amount = 100, res_method = ''bank'',
          res_status = ''pending'', res_newBalance = 800, res_timestamp = 5\<rparr>,
      open_state\<lparr>payments := [new_payment (env_p ''p1'') (request_of 100 (Some ''k1'')),
          new_payment (env_p ''p2'') (request_of 100 (Some ''k1''))],
        timers := [\<lparr>task_paymentId = ''p1'', task_status = SUCCESS, task_last4 = ''4242'',
            task_userId = 7, task_amount = 100\<rparr>,
          \<lparr>task_paymentId = ''p2'', task_status = SUCCESS, task_last4 = ''4242'',
            task_userId = 7, task_amount = 100\<rparr>],
        logs := [LogPaymentCreated ''p1'', LogPaymentCreated ''p2'']\<rparr>)"
    by (simp add: createPayment_def createPaymentSchema_ok_def outstandingBalance_def
        outstanding_of_def findMany_unpaid_asc_def unpaid_of_def num_or_zero_def
        find_owned_card_def read_idempotency_key_def trim_def is_space_def
        find_by_idempotency_key_def create_new_def payment_create_def new_payment_def
        normalizeStatus_PENDING example_defs)
  show ?thesis
    unfolding first by (simp add: second) (simp add: new_payment_def env_p_def)
qed

end
